theory Spec2Isabelle
  imports Complex_Main "HOL-Library.Multiset"
begin

section \<open>Numbers of the program\<close>

text \<open>
  The program computes with Python and numpy floating-point numbers (binary64). A value
  is either not-a-number or a finite number, and a finite number is a real. Overflow is
  idealised away, so infinities (which the formulas below only produce by overflow) do
  not occur. Rounding is modelled where a claim depends on it, in
  \<open>ajusta_por_moq_multiplo\<close>, by the function \<open>fl64\<close> below; the other operations are
  exact. Not-a-number is kept explicit, because the program uses it as its only failure
  signal: every arithmetic operation propagates it and every comparison with it is
  false.
\<close>

datatype pyfloat = NaN | Fin real

datatype error = ZeroDivisionError | KeyError

fun isnan :: "pyfloat \<Rightarrow> bool" where
  "isnan NaN = True"
| "isnan (Fin x) = False"

fun isfinite :: "pyfloat \<Rightarrow> bool" where
  "isfinite NaN = False"
| "isfinite (Fin x) = True"

fun fadd :: "pyfloat \<Rightarrow> pyfloat \<Rightarrow> pyfloat" where
  "fadd (Fin x) (Fin y) = Fin (x + y)"
| "fadd _ _ = NaN"

fun fsub :: "pyfloat \<Rightarrow> pyfloat \<Rightarrow> pyfloat" where
  "fsub (Fin x) (Fin y) = Fin (x - y)"
| "fsub _ _ = NaN"

fun fmul :: "pyfloat \<Rightarrow> pyfloat \<Rightarrow> pyfloat" where
  "fmul (Fin x) (Fin y) = Fin (x * y)"
| "fmul _ _ = NaN"

text \<open>Division by a non-zero literal of the source (\<open>Q / 2.0\<close>): it cannot fail.\<close>

fun fdiv :: "pyfloat \<Rightarrow> pyfloat \<Rightarrow> pyfloat" where
  "fdiv (Fin x) (Fin y) = Fin (x / y)"
| "fdiv _ _ = NaN"

text \<open>
  Division by a variable. Python raises \<open>ZeroDivisionError\<close> when the divisor of a float
  division is zero, whatever the dividend.
\<close>

definition pydiv :: "pyfloat \<Rightarrow> pyfloat \<Rightarrow> error + pyfloat" where
  "pydiv a b = (if b = Fin 0 then Inl ZeroDivisionError else Inr (fdiv a b))"

text \<open>Comparisons: false as soon as one side is not-a-number.\<close>

fun flt :: "pyfloat \<Rightarrow> pyfloat \<Rightarrow> bool" where
  "flt (Fin x) (Fin y) = (x < y)"
| "flt _ _ = False"

fun fle :: "pyfloat \<Rightarrow> pyfloat \<Rightarrow> bool" where
  "fle (Fin x) (Fin y) = (x \<le> y)"
| "fle _ _ = False"

text \<open>\<open>np.sqrt\<close>: not-a-number on a negative argument (a warning, not an exception).\<close>

fun np_sqrt :: "pyfloat \<Rightarrow> pyfloat" where
  "np_sqrt NaN = NaN"
| "np_sqrt (Fin x) = (if x < 0 then NaN else Fin (sqrt x))"

text \<open>\<open>np.ceil\<close>.\<close>

fun np_ceil :: "pyfloat \<Rightarrow> pyfloat" where
  "np_ceil NaN = NaN"
| "np_ceil (Fin x) = Fin (of_int \<lceil>x\<rceil>)"

text \<open>
  Python's builtin \<open>max(a, b)\<close> returns \<open>a\<close> unless \<open>b > a\<close>; so \<open>max(0.0, nan)\<close> is
  \<open>0.0\<close>.
\<close>

definition pymax :: "pyfloat \<Rightarrow> pyfloat \<Rightarrow> pyfloat" where
  "pymax a b = (if flt a b then b else a)"

text \<open>Truth value of a number in a condition (\<open>if moq and ...\<close>): not-a-number is true.\<close>

fun truthy :: "pyfloat \<Rightarrow> bool" where
  "truthy NaN = True"
| "truthy (Fin x) = (x \<noteq> 0)"

subsection \<open>Rounding to binary64\<close>

text \<open>
  A binary64 number is an integer of magnitude below \<open>2^53\<close> times a power of two not
  below \<open>2^-1074\<close>, the smallest subnormal number (no largest exponent is set: overflow
  is idealised away). The result of an arithmetic operation is the exact result
  rounded to the nearest binary64 number, a tie going to the even significand:
  \<open>fl64 x\<close> divides \<open>x\<close> by the unit in its last place, the power of two that brings its
  magnitude into \<open>[2^52, 2^53)\<close> or \<open>2^-1074\<close> if that is larger, rounds to the nearest
  integer (\<open>rne\<close>) and multiplies back.
\<close>

definition pow2 :: "int \<Rightarrow> real" where
  "pow2 e = (if 0 \<le> e then 2 ^ nat e else 1 / 2 ^ nat (- e))"

definition is_binary64 :: "real \<Rightarrow> bool" where
  "is_binary64 x \<longleftrightarrow> (\<exists>M e. x = of_int M * pow2 e \<and> \<bar>M\<bar> < 2 ^ 53 \<and> - 1074 \<le> e)"

definition rne :: "real \<Rightarrow> int" where
  "rne x = (let f = \<lfloor>x\<rfloor>; d = x - of_int f
            in if d < 1 / 2 then f else if 1 / 2 < d then f + 1
               else if even f then f else f + 1)"

definition fl64 :: "real \<Rightarrow> real" where
  "fl64 x = (if x = 0 then 0
             else (let e = max (\<lfloor>log 2 \<bar>x\<bar>\<rfloor> - 52) (- 1074)
                   in of_int (rne (x / pow2 e)) * pow2 e))"

fun fl_round :: "pyfloat \<Rightarrow> pyfloat" where
  "fl_round NaN = NaN"
| "fl_round (Fin x) = Fin (fl64 x)"

section \<open>Cost model\<close>

text \<open>
  \<^verbatim>\<open>
  def eoq(D_per, K, h_per):
      if D_per <= 0 or K < 0 or h_per <= 0:
          return np.nan
      return np.sqrt((2.0 * K * D_per) / h_per)
  \<close>
  The arguments are numbers at every call site (number inputs of the calculator,
  \<open>float(...)\<close> of a table cell in the batch evaluator, whose copy of the function also
  tests \<open>D_per is None\<close>).
\<close>

definition eoq :: "pyfloat \<Rightarrow> pyfloat \<Rightarrow> pyfloat \<Rightarrow> error + pyfloat" where
  "eoq D_per K h_per =
     (if fle D_per (Fin 0) \<or> flt K (Fin 0) \<or> fle h_per (Fin 0) then Inr NaN
      else (case pydiv (fmul (fmul (Fin 2) K) D_per) h_per of
              Inl e \<Rightarrow> Inl e
            | Inr v \<Rightarrow> Inr (np_sqrt v)))"

text \<open>
  \<^verbatim>\<open>
  def custos_periodicos(Q, D_per, K, h_per, SS=0.0):
      if Q is None or Q <= 0 or D_per <= 0 or h_per < 0 or K < 0:
          return np.nan, np.nan, np.nan
      c_ped = K * D_per / Q
      c_pos = h_per * (Q / 2.0 + max(0.0, SS))
      return c_ped, c_pos, c_ped + c_pos
  \<close>
  \<open>Q\<close> may be Python's \<open>None\<close>, which is \<open>None\<close> here.
\<close>

definition custos_periodicos ::
  "pyfloat option \<Rightarrow> pyfloat \<Rightarrow> pyfloat \<Rightarrow> pyfloat \<Rightarrow> pyfloat
     \<Rightarrow> error + (pyfloat \<times> pyfloat \<times> pyfloat)" where
  "custos_periodicos Qo D_per K h_per SS =
     (case Qo of
        None \<Rightarrow> Inr (NaN, NaN, NaN)
      | Some Q \<Rightarrow>
          if fle Q (Fin 0) \<or> fle D_per (Fin 0) \<or> flt h_per (Fin 0) \<or> flt K (Fin 0)
          then Inr (NaN, NaN, NaN)
          else (case pydiv (fmul K D_per) Q of
                  Inl e \<Rightarrow> Inl e
                | Inr c_ped \<Rightarrow>
                    (let c_pos = fmul h_per (fadd (fdiv Q (Fin 2)) (pymax (Fin 0) SS))
                     in Inr (c_ped, c_pos, fadd c_ped c_pos))))"

text \<open>
  The per-period cost that the economic order quantity is meant to minimise: ordering
  plus holding cost with no safety stock, \<open>K*D/Q + h*Q/2\<close>, over the reals. Lemma
  \<open>custos_total_cost\<close> below shows it is the third component of \<open>custos_periodicos\<close>
  with \<open>SS = 0\<close>.
\<close>

definition total_cost :: "real \<Rightarrow> real \<Rightarrow> real \<Rightarrow> real \<Rightarrow> real" where
  "total_cost D K h Q = K * D / Q + h * (Q / 2)"

text \<open>A minimiser over \<open>Q > 0\<close> is itself a positive quantity.\<close>

definition is_minimizer :: "real \<Rightarrow> real \<Rightarrow> real \<Rightarrow> real \<Rightarrow> bool" where
  "is_minimizer D K h q \<longleftrightarrow> 0 < q \<and> (\<forall>Q>0. total_cost D K h q \<le> total_cost D K h Q)"

section \<open>Policy adjuster\<close>

text \<open>
  \<^verbatim>\<open>
  def ajusta_por_moq_multiplo(q, moq=0, mult=0):
      if q is None or np.isnan(q):
          return q
      q_adj = q
      if moq and moq > 0 and q_adj < moq:
          q_adj = moq
      if mult and mult > 0:
          q_adj = mult * np.ceil(q_adj / mult)
      return q_adj
  \<close>
  The copy in the batch path differs only by conversions to \<open>float\<close>. The argument
  \<open>mult\<close> is \<open>multiplo\<close> here. The division and the multiplication round their results
  to binary64; \<open>np.ceil\<close> is exact.
\<close>

definition ajusta_por_moq_multiplo ::
  "pyfloat option \<Rightarrow> pyfloat \<Rightarrow> pyfloat \<Rightarrow> error + pyfloat option" where
  "ajusta_por_moq_multiplo qo moq multiplo =
     (case qo of
        None \<Rightarrow> Inr None
      | Some q \<Rightarrow>
          if isnan q then Inr (Some q)
          else
            (let q_adj = (if truthy moq \<and> flt (Fin 0) moq \<and> flt q moq then moq else q)
             in if truthy multiplo \<and> flt (Fin 0) multiplo
                then (case pydiv q_adj multiplo of
                        Inl e \<Rightarrow> Inl e
                      | Inr v \<Rightarrow>
                          Inr (Some (fl_round (fmul multiplo (np_ceil (fl_round v))))))
                else Inr (Some q_adj)))"

section \<open>Baseline policy and savings\<close>

text \<open>
  Single-SKU calculator:
  \<^verbatim>\<open>
  if r_base_input and r_base_input > 0:
      SS_base = max(0.0, r_base_input - mu_L_opt)
      r_base = r_base_input
  else:
      SS_base = SS_base_default
      r_base = mu_L_opt + SS_base
  \<close>
  The result is the pair \<open>(SS_base, r_base)\<close>.
\<close>

definition SS_base :: "pyfloat \<Rightarrow> pyfloat \<Rightarrow> pyfloat \<Rightarrow> pyfloat \<times> pyfloat" where
  "SS_base r_base_input mu_L_opt SS_base_default =
     (if truthy r_base_input \<and> flt (Fin 0) r_base_input
      then (pymax (Fin 0) (fsub r_base_input mu_L_opt), r_base_input)
      else (SS_base_default, fadd mu_L_opt SS_base_default))"

text \<open>
  Batch evaluator:
  \<^verbatim>\<open>
  if pd.notna(rb_in) and rb_in > 0:
      r_base = float(rb_in); SS_base = max(0.0, r_base - mu_L)
  else:
      SS_base = z * sigma_L; r_base = mu_L + SS_base
  \<close>
\<close>

definition SS_base_batch :: "pyfloat \<Rightarrow> pyfloat \<Rightarrow> pyfloat \<Rightarrow> pyfloat \<Rightarrow> pyfloat \<times> pyfloat" where
  "SS_base_batch rb_in mu_L z sigma_L =
     (if \<not> isnan rb_in \<and> flt (Fin 0) rb_in
      then (pymax (Fin 0) (fsub rb_in mu_L), rb_in)
      else (fmul z sigma_L, fadd mu_L (fmul z sigma_L)))"

text \<open>
  \<^verbatim>\<open>
  economia_per = ctot_base - ctot_opt if np.isfinite(ctot_base) and np.isfinite(ctot_opt) else np.nan
  economia_ano = economia_per * periods_per_year if np.isfinite(economia_per) else np.nan
  economia_pct = (economia_per / ctot_base * 100.0) if (np.isfinite(ctot_base) and ctot_base > 0) else np.nan
  \<close>
\<close>

definition economia_per :: "pyfloat \<Rightarrow> pyfloat \<Rightarrow> pyfloat" where
  "economia_per ctot_base ctot_opt =
     (if isfinite ctot_base \<and> isfinite ctot_opt then fsub ctot_base ctot_opt else NaN)"

definition economia_ano :: "pyfloat \<Rightarrow> pyfloat \<Rightarrow> pyfloat" where
  "economia_ano e_per periods_per_year =
     (if isfinite e_per then fmul e_per periods_per_year else NaN)"

definition economia_pct :: "pyfloat \<Rightarrow> pyfloat \<Rightarrow> error + pyfloat" where
  "economia_pct e_per ctot_base =
     (if isfinite ctot_base \<and> flt (Fin 0) ctot_base
      then (case pydiv e_per ctot_base of
              Inl e \<Rightarrow> Inl e
            | Inr v \<Rightarrow> Inr (fmul v (Fin 100)))
      else Inr NaN)"

text \<open>
  The cost comparison of one SKU, as both the calculator and the batch evaluator run it:
  \<^verbatim>\<open>
  Q_opt_raw = eoq(D_base, K, h_per)
  Q_opt = ajusta_por_moq_multiplo(Q_opt_raw, moq=moq, mult=mult)
  cped_opt, cpos_opt, ctot_opt = custos_periodicos(Q_opt, D_base, K, h_per, SS=SS_opt)
  cped_base, cpos_base, ctot_base = custos_periodicos(Q_base, D_base, K, h_per, SS=SS_base)
  \<close>
  followed by the three savings lines above. \<open>Q_base\<close>, \<open>SS_opt\<close> and the baseline safety
  stock are inputs here. The result is
  \<open>(ctot_base, ctot_opt, economia_per, economia_pct)\<close>; an exception raised on the way
  is the result \<open>Inl\<close>.
\<close>

definition bind_err :: "error + 'a \<Rightarrow> ('a \<Rightarrow> error + 'b) \<Rightarrow> error + 'b" where
  "bind_err m f = (case m of Inl e \<Rightarrow> Inl e | Inr v \<Rightarrow> f v)"

definition economia ::
  "pyfloat \<Rightarrow> pyfloat \<Rightarrow> pyfloat \<Rightarrow> pyfloat \<Rightarrow> pyfloat \<Rightarrow> pyfloat \<Rightarrow> pyfloat \<Rightarrow> pyfloat
     \<Rightarrow> error + (pyfloat \<times> pyfloat \<times> pyfloat \<times> pyfloat)" where
  "economia D_base K h_per moq multiplo Q_base SS_opt SS_b =
     bind_err (eoq D_base K h_per) (\<lambda>Q_opt_raw.
     bind_err (ajusta_por_moq_multiplo (Some Q_opt_raw) moq multiplo) (\<lambda>Q_opt.
     bind_err (custos_periodicos Q_opt D_base K h_per SS_opt) (\<lambda>(cped_opt, cpos_opt, ctot_opt).
     bind_err (custos_periodicos (Some Q_base) D_base K h_per SS_b) (\<lambda>(cped_base, cpos_base, ctot_base).
     bind_err (economia_pct (economia_per ctot_base ctot_opt) ctot_base) (\<lambda>pct.
       Inr (ctot_base, ctot_opt, economia_per ctot_base ctot_opt, pct))))))"

section \<open>Inventory simulator\<close>

text \<open>
  The simulator is only called with finite arguments (the calculator replaces a
  non-finite \<open>Q_opt\<close> by \<open>Q_base\<close> before the call), so its quantities are reals. Days,
  the horizon \<open>T\<close> and the lead time \<open>int(L)\<close>, which is not negative, are natural
  numbers.

  \<open>rng = np.random.default_rng(seed)\<close> is a generator private to the call. It is modelled
  by the sequence of standard normal variates it yields, a function of the seed, and by
  the number of variates consumed so far; \<open>rng.normal(loc, scale)\<close> consumes one variate
  \<open>z\<close> and returns \<open>loc + scale * z\<close>.
\<close>

record sim_args =
  arg_Q :: real
  arg_r :: real
  arg_d_dia :: real
  arg_L :: nat
  arg_sigma_d_dia :: real
  arg_T :: nat
  arg_seed :: nat
  arg_clamp_zero :: bool
  arg_start_mode :: string

record sim_state =
  on_hand :: real
  pending :: "(nat \<times> real) list"
  x_days :: "nat list"
  y_onhand :: "real list"
  y_pos :: "real list"
  order_times :: "nat list"
  arrival_times :: "nat list"
  stockout_days :: nat
  rng_pos :: nat

text \<open>
  \<^verbatim>\<open>
  if start_mode == "steady":
      on_hand = float(r)
      pending = [(int(L), Q)]
  else:
      on_hand = float(Q)
      pending = []
  x = [0.0]; y_onhand = [on_hand]; y_pos = [on_hand]
  order_times = []; arrival_times = []; stockout_days = 0
  \<close>
\<close>

definition sim_init :: "sim_args \<Rightarrow> sim_state" where
  "sim_init a =
     (let steady = (arg_start_mode a = ''steady'');
          oh = (if steady then arg_r a else arg_Q a)
      in \<lparr>on_hand = oh,
          pending = (if steady then [(arg_L a, arg_Q a)] else []),
          x_days = [0], y_onhand = [oh], y_pos = [oh],
          order_times = [], arrival_times = [], stockout_days = 0, rng_pos = 0\<rparr>)"

text \<open>
  \<^verbatim>\<open>
  if pending:
      arrived = [q for (day, q) in pending if day == t]
      if arrived:
          on_hand += sum(arrived)
          arrival_times.append(t)
          pending = [(day, q) for (day, q) in pending if day != t]
  \<close>
\<close>

definition chegadas :: "nat \<Rightarrow> sim_state \<Rightarrow> sim_state" where
  "chegadas t st =
     (if pending st \<noteq> [] then
        (let arrived = map snd (filter (\<lambda>(day, q). day = t) (pending st))
         in if arrived \<noteq> [] then
              st\<lparr>on_hand := on_hand st + sum_list arrived,
                 arrival_times := arrival_times st @ [t],
                 pending := filter (\<lambda>(day, q). day \<noteq> t) (pending st)\<rparr>
            else st)
      else st)"

text \<open>
  \<^verbatim>\<open>
  demand = d_dia if sigma_d_dia <= 0 else max(0.0, rng.normal(d_dia, sigma_d_dia))
  \<close>
  The demand of the day, given the generator's sequence \<open>g\<close> and the state.
\<close>

definition demand :: "sim_args \<Rightarrow> (nat \<Rightarrow> real) \<Rightarrow> sim_state \<Rightarrow> real" where
  "demand a g st =
     (if arg_sigma_d_dia a \<le> 0 then arg_d_dia a
      else max 0 (arg_d_dia a + arg_sigma_d_dia a * g (rng_pos st)))"

text \<open>
  \<^verbatim>\<open>
  on_hand -= demand
  if clamp_zero and on_hand < 0:
      on_hand = 0.0
      stockout_days += 1
  \<close>
\<close>

definition consumo :: "sim_args \<Rightarrow> (nat \<Rightarrow> real) \<Rightarrow> sim_state \<Rightarrow> sim_state" where
  "consumo a g st =
     (let dem = demand a g st;
          st1 = st\<lparr>on_hand := on_hand st - dem,
                    rng_pos := (if arg_sigma_d_dia a \<le> 0 then rng_pos st else rng_pos st + 1)\<rparr>
      in if arg_clamp_zero a \<and> on_hand st1 < 0
         then st1\<lparr>on_hand := 0, stockout_days := stockout_days st1 + 1\<rparr>
         else st1)"

text \<open>
  \<^verbatim>\<open>
  on_order = sum(q for (_, q) in pending) if pending else 0.0
  position = on_hand + on_order
  if position <= r:
      pending.append((t + int(L), Q))
      order_times.append(t)
  x.append(t); y_onhand.append(on_hand); y_pos.append(position)
  \<close>
\<close>

definition position :: "sim_state \<Rightarrow> real" where
  "position st =
     on_hand st + (if pending st \<noteq> [] then sum_list (map snd (pending st)) else 0)"

definition regra_Qr :: "sim_args \<Rightarrow> nat \<Rightarrow> sim_state \<Rightarrow> sim_state" where
  "regra_Qr a t st =
     (let pos = position st;
          st1 = (if pos \<le> arg_r a
                 then st\<lparr>pending := pending st @ [(t + arg_L a, arg_Q a)],
                         order_times := order_times st @ [t]\<rparr>
                 else st)
      in st1\<lparr>x_days := x_days st1 @ [t],
             y_onhand := y_onhand st1 @ [on_hand st1],
             y_pos := y_pos st1 @ [pos]\<rparr>)"

text \<open>One iteration of the loop body, for day \<open>t\<close>.\<close>

definition sim_day :: "sim_args \<Rightarrow> (nat \<Rightarrow> real) \<Rightarrow> nat \<Rightarrow> sim_state \<Rightarrow> sim_state" where
  "sim_day a g t st = regra_Qr a t (consumo a g (chegadas t st))"

text \<open>\<open>for t in range(1, T + 1)\<close>, run for the first \<open>n\<close> days.\<close>

definition sim_run :: "sim_args \<Rightarrow> (nat \<Rightarrow> real) \<Rightarrow> nat \<Rightarrow> sim_state" where
  "sim_run a g n = fold (sim_day a g) [1..<Suc n] (sim_init a)"

text \<open>
  The function itself; \<open>default_rng\<close> maps a seed to the generator's sequence. It returns
  \<open>(x, y_onhand, y_pos, order_times, arrival_times, stockout_days)\<close>.
\<close>

definition sim_serrilhado_com_leadtime ::
  "(nat \<Rightarrow> nat \<Rightarrow> real) \<Rightarrow> sim_args
     \<Rightarrow> nat list \<times> real list \<times> real list \<times> nat list \<times> nat list \<times> nat" where
  "sim_serrilhado_com_leadtime default_rng a =
     (let st = sim_run a (default_rng (arg_seed a)) (arg_T a)
      in (x_days st, y_onhand st, y_pos st, order_times st, arrival_times st,
          stockout_days st))"

text \<open>
  The days of a run on which the demand exceeds the on-hand level left after the
  arrivals of that day.
\<close>

definition shortfall_day :: "sim_args \<Rightarrow> (nat \<Rightarrow> real) \<Rightarrow> nat \<Rightarrow> bool" where
  "shortfall_day a g t \<longleftrightarrow>
     (let st = chegadas t (sim_run a g (t - 1)) in on_hand st < demand a g st)"

section \<open>Batch ranking\<close>

text \<open>
  \<^verbatim>\<open>
  df_out = pd.DataFrame(results)
  df_rank = df_out.sort_values(by=ordenar_por, ascending=False).reset_index(drop=True)
  \<close>
  \<open>results\<close> holds one row for each row of the input table, in table order, and
  \<open>ordenar_por\<close> names one of its three savings columns; here a row is any value and
  \<open>ordenar_por\<close> the function reading the chosen column.

  The sorting is done by pandas, which is not part of the repository. The call leaves
  \<open>kind\<close> and \<open>na_position\<close> at their defaults, \<open>'quicksort'\<close> and \<open>'last'\<close>. pandas sets
  the rows whose key is not-a-number aside, sorts the other rows with the algorithm
  \<open>kind\<close> (for a descending sort: reverses them, sorts by ascending key, reverses the
  result), and puts the not-a-number rows last, in their original order. The algorithm
  is a parameter here; pandas documents \<open>'quicksort'\<close> as a sorting algorithm that is
  not stable.

  For an empty table \<open>results\<close> is empty, \<open>pd.DataFrame([])\<close> has no columns, and
  \<open>sort_values\<close> raises \<open>KeyError\<close>.
\<close>

text \<open>The number in a key that is not not-a-number.\<close>

fun fin_val :: "pyfloat \<Rightarrow> real" where
  "fin_val (Fin x) = x"
| "fin_val NaN = 0"

definition df_rank ::
  "(('r \<Rightarrow> real) \<Rightarrow> 'r list \<Rightarrow> 'r list) \<Rightarrow> ('r \<Rightarrow> pyfloat) \<Rightarrow> 'r list
     \<Rightarrow> error + 'r list" where
  "df_rank kind ordenar_por df_out =
     (if df_out = [] then Inl KeyError
      else
        (let non_nans = filter (\<lambda>row. \<not> isnan (ordenar_por row)) df_out;
             nans = filter (\<lambda>row. isnan (ordenar_por row)) df_out
         in Inr (rev (kind (\<lambda>row. fin_val (ordenar_por row)) (rev non_nans)) @ nans)))"




section \<open>Verification: cost model\<close>

lemma custos_total_cost:
  "0 < Q \<Longrightarrow> 0 < D \<Longrightarrow> 0 \<le> h \<Longrightarrow> 0 \<le> K \<Longrightarrow>
   custos_periodicos (Some (Fin Q)) (Fin D) (Fin K) (Fin h) (Fin 0) =
     Inr (Fin (K * D / Q), Fin (h * (Q / 2)), Fin (total_cost D K h Q))"
  by (simp add: custos_periodicos_def pydiv_def pymax_def total_cost_def)

lemma eoq_cases:
  "eoq D K h = Inr (case (D, K, h) of
       (Fin d, Fin k, Fin c) \<Rightarrow>
          if 0 < d \<and> 0 \<le> k \<and> 0 < c then Fin (sqrt (2 * k * d / c)) else NaN
     | _ \<Rightarrow> NaN)"
proof -
  have nn: "\<not> 2 * k * d / c < 0" if "0 < d" "0 \<le> k" "0 < c" for d k c :: real
    using that by (simp add: not_less)
  show ?thesis
    by (cases D; cases K; cases h) (auto simp: eoq_def pydiv_def nn)
qed

text \<open>
  With \<open>q\<close> the square root of \<open>2*K*D/h\<close>, the cost at \<open>Q\<close> exceeds the cost at \<open>q\<close> by
  \<open>h * (Q - q)\<^sup>2 / (2 * Q)\<close>.
\<close>

lemma total_cost_at_sqrt_le:
  fixes D K h Q :: real
  assumes "0 < D" "0 < K" "0 < h" "0 < Q"
  shows "total_cost D K h (sqrt (2 * K * D / h)) \<le> total_cost D K h Q"
proof -
  define q where "q = sqrt (2 * K * D / h)"
  have qpos: "0 < q" using assms by (simp add: q_def)
  have "q * q = 2 * K * D / h" using assms by (simp add: q_def)
  then have KD: "K * D = h * (q * q) / 2" using assms by (simp add: field_simps)
  have "K * D / Q + h * (Q / 2) - (K * D / q + h * (q / 2)) = h * (Q - q)^2 / (2 * Q)"
    using qpos assms(4) unfolding KD by (simp add: field_simps power2_eq_square)
  moreover have "0 \<le> h * (Q - q)^2 / (2 * Q)" using assms by simp
  ultimately show ?thesis unfolding total_cost_def q_def by linarith
qed

lemma eoq_minimizer:
  assumes "0 < d" "0 < k" "0 < c"
  shows "is_minimizer d k c (sqrt (2 * k * d / c))"
  unfolding is_minimizer_def using assms total_cost_at_sqrt_le[OF assms] by simp

text \<open>
  With no fixed order cost the cost \<open>h*Q/2\<close> decreases with \<open>Q\<close> all the way to zero, so
  it has no minimiser over \<open>Q > 0\<close>.
\<close>

lemma no_minimizer_without_order_cost:
  assumes "0 < h"
  shows "\<not> is_minimizer D 0 h q"
proof
  assume "is_minimizer D 0 h q"
  then have "0 < q" and "total_cost D 0 h q \<le> total_cost D 0 h (q / 2)"
    by (auto simp: is_minimizer_def)
  then show False using assms by (simp add: total_cost_def)
qed

text \<open>
  Claim C1, as stated, fails for \<open>K = 0\<close>, which the guard of \<open>eoq\<close> admits: the function
  returns \<open>0\<close>, which is not a quantity \<open>Q > 0\<close> and so not a minimiser over \<open>Q > 0\<close>.
\<close>

theorem eoq_minimizer_counterexample:
  "eoq (Fin 1) (Fin 0) (Fin 1) = Inr (Fin 0) \<and> \<not> is_minimizer 1 0 1 0"
  by (simp add: eoq_def pydiv_def is_minimizer_def)

text \<open>
  Claim C1, amended: for all \<open>D\<close>, \<open>K\<close>, \<open>h\<close>, \<open>eoq\<close> raises no exception; it returns
  \<open>sqrt(2*K*D/h)\<close> when \<open>D > 0\<close>, \<open>K \<ge> 0\<close> and \<open>h > 0\<close> and not-a-number in every other
  case; and when moreover \<open>K > 0\<close>, the returned value minimises \<open>K*D/Q + h*Q/2\<close> over
  \<open>Q > 0\<close>.
\<close>

theorem eoq_correct:
  "eoq D K h = Inr (case (D, K, h) of
       (Fin d, Fin k, Fin c) \<Rightarrow>
          if 0 < d \<and> 0 \<le> k \<and> 0 < c then Fin (sqrt (2 * k * d / c)) else NaN
     | _ \<Rightarrow> NaN)
   \<and> (\<forall>d k c. D = Fin d \<and> K = Fin k \<and> h = Fin c \<and> 0 < d \<and> 0 < k \<and> 0 < c \<longrightarrow>
        (\<exists>q. eoq D K h = Inr (Fin q) \<and> is_minimizer d k c q))"
  using eoq_cases[of D K h] eoq_minimizer by auto

theorem eoq_correct_witness:
  "eoq (Fin 2) (Fin 1) (Fin 1) = Inr (Fin 2) \<and> is_minimizer 2 1 1 2"
  using eoq_correct[of "Fin 2" "Fin 1" "Fin 1"] by auto

lemma custos_shape: "\<exists>a b. custos_periodicos Qo D K h SS = Inr (a, b, fadd a b)"
  by (cases Qo; cases D; cases K; cases h)
     (auto simp: custos_periodicos_def pydiv_def Let_def split: pyfloat.splits)

lemma custos_formula:
  assumes "0 < q" "0 < d" "0 \<le> c" "0 \<le> k"
  shows "custos_periodicos (Some (Fin q)) (Fin d) (Fin k) (Fin c) SS =
     Inr (Fin (k * d / q),
          Fin (c * (q / 2 + (case SS of NaN \<Rightarrow> 0 | Fin s \<Rightarrow> max 0 s))),
          Fin (k * d / q + c * (q / 2 + (case SS of NaN \<Rightarrow> 0 | Fin s \<Rightarrow> max 0 s))))"
  using assms by (cases SS) (auto simp: custos_periodicos_def pydiv_def pymax_def)

lemma custos_all_nan_iff:
  "custos_periodicos Qo D K h SS = Inr (NaN, NaN, NaN) \<longleftrightarrow>
     (case Qo of None \<Rightarrow> True
      | Some Q \<Rightarrow> isnan Q \<or> fle Q (Fin 0) \<or> fle D (Fin 0) \<or> flt h (Fin 0) \<or> flt K (Fin 0)
                  \<or> (isnan h \<and> (isnan K \<or> isnan D)))"
proof (cases Qo)
  case None
  then show ?thesis by (simp add: custos_periodicos_def)
next
  case (Some Q)
  show ?thesis unfolding Some
    by (cases Q; cases D; cases K; cases h; cases SS)
       (auto simp: custos_periodicos_def pydiv_def pymax_def Let_def)
qed

text \<open>
  Claim C2, as stated, fails when both \<open>K\<close> and \<open>h_per\<close> are not-a-number (blank cost
  cells of a batch row): no guard fires, \<open>Q\<close> is a defined positive number, and yet all
  three components are not-a-number.
\<close>

theorem custos_periodicos_counterexample:
  "custos_periodicos (Some (Fin 1)) (Fin 1) NaN NaN (Fin 0) = Inr (NaN, NaN, NaN)
   \<and> \<not> (fle (Fin 1) (Fin 0) \<or> fle (Fin 1) (Fin 0) \<or> flt NaN (Fin 0) \<or> flt NaN (Fin 0)
         \<or> Some (Fin 1) = None \<or> isnan (Fin 1))"
  by (simp add: custos_periodicos_def pydiv_def pymax_def)

text \<open>
  Claim C2, amended: for all \<open>Q\<close>, \<open>D\<close>, \<open>K\<close>, \<open>h\<close>, \<open>SS\<close>, \<open>custos_periodicos\<close> raises no
  exception and its third component is the sum of the first two; it returns
  \<open>(K*D/Q, h*(Q/2 + max(0,SS)), their sum)\<close> when \<open>Q > 0\<close>, \<open>D > 0\<close>, \<open>h \<ge> 0\<close> and
  \<open>K \<ge> 0\<close> (Python's \<open>max(0.0, SS)\<close> being \<open>0\<close> for a not-a-number \<open>SS\<close>); and it returns
  three not-a-number values exactly when \<open>Q\<close> is \<open>None\<close> or not-a-number, \<open>Q \<le> 0\<close>,
  \<open>D \<le> 0\<close>, \<open>h < 0\<close>, \<open>K < 0\<close>, or \<open>h\<close> is not-a-number together with \<open>K\<close> or \<open>D\<close>.
\<close>

theorem custos_periodicos_correct:
  "(\<exists>a b. custos_periodicos Qo D K h SS = Inr (a, b, fadd a b))
   \<and> (\<forall>q d k c. Qo = Some (Fin q) \<and> D = Fin d \<and> K = Fin k \<and> h = Fin c
          \<and> 0 < q \<and> 0 < d \<and> 0 \<le> c \<and> 0 \<le> k \<longrightarrow>
        custos_periodicos Qo D K h SS =
          Inr (Fin (k * d / q),
               Fin (c * (q / 2 + (case SS of NaN \<Rightarrow> 0 | Fin s \<Rightarrow> max 0 s))),
               Fin (k * d / q + c * (q / 2 + (case SS of NaN \<Rightarrow> 0 | Fin s \<Rightarrow> max 0 s)))))
   \<and> (custos_periodicos Qo D K h SS = Inr (NaN, NaN, NaN) \<longleftrightarrow>
        (case Qo of None \<Rightarrow> True
         | Some Q \<Rightarrow> isnan Q \<or> fle Q (Fin 0) \<or> fle D (Fin 0) \<or> flt h (Fin 0) \<or> flt K (Fin 0)
                     \<or> (isnan h \<and> (isnan K \<or> isnan D))))"
  using custos_shape[of Qo D K h SS] custos_formula[of _ _ _ _ SS] custos_all_nan_iff[of Qo D K h SS]
  by blast

theorem custos_periodicos_correct_witness:
  "custos_periodicos (Some (Fin 2)) (Fin 3) (Fin 4) (Fin 1) (Fin 5) = Inr (Fin 6, Fin 6, Fin 12)
   \<and> custos_periodicos (Some (Fin 0)) (Fin 3) (Fin 4) (Fin 1) (Fin 5) = Inr (NaN, NaN, NaN)"
  using custos_periodicos_correct[of "Some (Fin 2)" "Fin 3" "Fin 4" "Fin 1" "Fin 5"]
        custos_periodicos_correct[of "Some (Fin 0)" "Fin 3" "Fin 4" "Fin 1" "Fin 5"]
  by simp

section \<open>Verification: policy adjuster\<close>

subsection \<open>Powers of two and rounding to an integer\<close>

lemma pow2_powr: "pow2 e = 2 powr of_int e"
  by (simp add: pow2_def powr_int)

lemma pow2_pos: "0 < pow2 e"
  by (simp add: pow2_powr)

lemma pow2_add: "pow2 (a + b) = pow2 a * pow2 b"
  by (simp add: pow2_powr powr_add)

lemma pow2_mono: "a \<le> b \<Longrightarrow> pow2 a \<le> pow2 b"
  by (simp add: pow2_powr)

lemma pow2_nonneg_int: "0 \<le> e \<Longrightarrow> pow2 e = of_int (2 ^ nat e)"
  by (simp add: pow2_def)

lemma pow2_52: "pow2 52 = 2 ^ 52" and pow2_53: "pow2 53 = 2 ^ 53" and pow2_0: "pow2 0 = 1"
  by (simp_all add: pow2_def)

lemma pow2_le_one: "e \<le> 0 \<Longrightarrow> pow2 e \<le> 1"
  using pow2_mono[of e 0] by (simp add: pow2_0)

lemma rne_le:
  assumes "t \<le> of_int z"
  shows "rne t \<le> z"
proof -
  have f: "\<lfloor>t\<rfloor> \<le> z" using assms by (simp add: floor_le_iff)
  show ?thesis
  proof (cases "\<lfloor>t\<rfloor> = z")
    case True
    then have "t = of_int z" using assms by linarith
    then show ?thesis by (simp add: rne_def)
  next
    case False
    with f have "\<lfloor>t\<rfloor> + 1 \<le> z" by simp
    then show ?thesis by (auto simp: rne_def Let_def)
  qed
qed

lemma rne_gt:
  assumes "of_int z + 1 / 2 < t"
  shows "z < rne t"
proof -
  have f: "z \<le> \<lfloor>t\<rfloor>" using assms by (simp add: le_floor_iff)
  show ?thesis
  proof (cases "\<lfloor>t\<rfloor> = z")
    case True
    then have "1 / 2 < t - of_int \<lfloor>t\<rfloor>" using assms by simp
    then show ?thesis using True by (simp add: rne_def Let_def)
  next
    case False
    with f have "z < \<lfloor>t\<rfloor>" by simp
    then show ?thesis by (auto simp: rne_def Let_def)
  qed
qed

lemma rne_of_int: "rne (of_int z) = z"
  by (simp add: rne_def)

lemma int_over_pow2:
  assumes "e \<le> 0"
  shows "of_int m / pow2 e = of_int (m * 2 ^ nat (- e))"
proof -
  have "pow2 e = 1 / 2 ^ nat (- e)" using assms by (cases "e = 0") (simp_all add: pow2_def)
  then show ?thesis by simp
qed

subsection \<open>Rounding to binary64\<close>

lemma fl64_scaled:
  assumes "x \<noteq> 0"
  shows "fl64 x = of_int (rne (x / pow2 (max (\<lfloor>log 2 \<bar>x\<bar>\<rfloor> - 52) (- 1074))))
                    * pow2 (max (\<lfloor>log 2 \<bar>x\<bar>\<rfloor> - 52) (- 1074))"
  using assms by (simp add: fl64_def Let_def)

text \<open>A normal number in the binade \<open>[2^k, 2^(k+1))\<close> is rounded in units of \<open>2^(k-52)\<close>.\<close>

lemma fl64_binade:
  assumes "pow2 k \<le> \<bar>x\<bar>" "\<bar>x\<bar> < pow2 (k + 1)" "- 1022 \<le> k"
  shows "fl64 x = of_int (rne (x / pow2 (k - 52))) * pow2 (k - 52)"
proof -
  have pos: "0 < \<bar>x\<bar>" using assms(1) pow2_pos[of k] by linarith
  then have "\<lfloor>log 2 \<bar>x\<bar>\<rfloor> = k"
    using assms(1,2) by (simp add: floor_log_eq_powr_iff pow2_powr)
  moreover have "max (k - 52) (- 1074) = k - 52" using assms(3) by simp
  moreover have "x \<noteq> 0" using pos by auto
  ultimately show ?thesis by (simp add: fl64_scaled)
qed

text \<open>
  The scale of a nonzero number: its quotient by \<open>2^(\<lfloor>log2 |x|\<rfloor> - 52)\<close> lies in
  \<open>[2^52, 2^53)\<close>.
\<close>

lemma scale_bounds:
  assumes "x \<noteq> 0"
  defines "e \<equiv> \<lfloor>log 2 \<bar>x\<bar>\<rfloor> - 52"
  shows "2 ^ 52 * pow2 e \<le> \<bar>x\<bar>" and "\<bar>x\<bar> < 2 ^ 53 * pow2 e"
proof -
  have pos: "0 < \<bar>x\<bar>" using assms(1) by simp
  have "\<lfloor>log 2 \<bar>x\<bar>\<rfloor> = e + 52" by (simp add: e_def)
  then have b: "2 powr of_int (e + 52) \<le> \<bar>x\<bar>" "\<bar>x\<bar> < 2 powr (of_int (e + 52) + 1)"
    using floor_log_eq_powr_iff[of "\<bar>x\<bar>" 2 "e + 52"] pos by auto
  have "pow2 (e + 52) \<le> \<bar>x\<bar>" using b(1) by (simp only: pow2_powr)
  then show "2 ^ 52 * pow2 e \<le> \<bar>x\<bar>" by (simp add: pow2_add pow2_52 mult.commute)
  have "of_int (e + 52) + 1 = (of_int (e + 53) :: real)" by simp
  then have "\<bar>x\<bar> < pow2 (e + 53)" using b(2) by (simp only: pow2_powr)
  then show "\<bar>x\<bar> < 2 ^ 53 * pow2 e" by (simp add: pow2_add pow2_53 mult.commute)
qed

text \<open>
  Below \<open>2^53\<close> the unit in the last place is \<open>2^e\<close> with \<open>e \<le> 0\<close>, so the integers are
  whole multiples of it.
\<close>

lemma scale_small:
  assumes "x \<noteq> 0" "\<bar>x\<bar> < 2 ^ 53"
  shows "\<lfloor>log 2 \<bar>x\<bar>\<rfloor> - 52 \<le> 0"
proof (rule ccontr)
  define e where "e = \<lfloor>log 2 \<bar>x\<bar>\<rfloor> - 52"
  assume "\<not> \<lfloor>log 2 \<bar>x\<bar>\<rfloor> - 52 \<le> 0"
  then have "1 \<le> e" by (simp add: e_def)
  then have "pow2 1 \<le> pow2 e" by (rule pow2_mono)
  then have "2 \<le> pow2 e" by (simp add: pow2_def)
  then have "2 ^ 52 * 2 \<le> 2 ^ 52 * pow2 e" by simp
  moreover have "2 ^ 52 * pow2 e \<le> \<bar>x\<bar>" using scale_bounds(1)[OF assms(1)] by (simp add: e_def)
  ultimately show False using assms(2) by simp
qed

lemma fl64_of_int:
  assumes "\<bar>z\<bar> < 2 ^ 53"
  shows "fl64 (of_int z) = of_int z"
proof (cases "z = 0")
  case True
  then show ?thesis by (simp add: fl64_def)
next
  case False
  define e where "e = max (\<lfloor>log 2 \<bar>real_of_int z\<bar>\<rfloor> - 52) (- 1074)"
  have nz: "real_of_int z \<noteq> 0" using False by simp
  have "\<bar>real_of_int z\<bar> < 2 ^ 53"
    using assms by (metis of_int_abs of_int_less_numeral_power_cancel_iff)
  then have e0: "e \<le> 0" using scale_small[OF nz] by (simp add: e_def)
  have "real_of_int z / pow2 e = of_int (z * 2 ^ nat (- e))" using e0 by (rule int_over_pow2)
  then have "of_int (rne (real_of_int z / pow2 e)) * pow2 e = real_of_int z / pow2 e * pow2 e"
    by (simp only: rne_of_int)
  also have "\<dots> = real_of_int z" using pow2_pos[of e] by simp
  finally show ?thesis using nz by (simp add: fl64_scaled e_def)
qed

lemma binary64_nonpos_exponent:
  assumes "is_binary64 q" "\<bar>q\<bar> < 2 ^ 53"
  shows "\<exists>M c. q = of_int M * pow2 c \<and> \<bar>M\<bar> < 2 ^ 53 \<and> c \<le> 0"
proof -
  obtain M c where q: "q = of_int M * pow2 c" and M: "\<bar>M\<bar> < 2 ^ 53"
    using assms(1) by (auto simp: is_binary64_def)
  show ?thesis
  proof (cases "c \<le> 0")
    case True
    then show ?thesis using q M by blast
  next
    case False
    then have "pow2 c = of_int (2 ^ nat c)" by (simp add: pow2_nonneg_int)
    then have q': "q = of_int (M * 2 ^ nat c) * pow2 0" by (simp add: q pow2_0)
    have "\<bar>real_of_int (M * 2 ^ nat c)\<bar> < 2 ^ 53" using assms(2) q' by (simp add: pow2_0)
    then have "\<bar>M * 2 ^ nat c\<bar> < 2 ^ 53"
      by (metis of_int_abs of_int_less_numeral_power_cancel_iff)
    then show ?thesis using q' by (metis order_refl)
  qed
qed

text \<open>Rounding does not cross an integer: from below it stops there.\<close>

lemma fl64_le_int:
  assumes "x \<le> of_int n" "\<bar>x\<bar> < 2 ^ 53"
  shows "fl64 x \<le> of_int n"
proof (cases "x = 0")
  case True
  then show ?thesis using assms by (simp add: fl64_def)
next
  case False
  define e where "e = max (\<lfloor>log 2 \<bar>x\<bar>\<rfloor> - 52) (- 1074)"
  have e0: "e \<le> 0" using scale_small[OF False assms(2)] by (simp add: e_def)
  have u: "0 < pow2 e" by (rule pow2_pos)
  have "x / pow2 e \<le> of_int n / pow2 e" using assms(1) u by (simp add: divide_right_mono)
  also have "\<dots> = of_int (n * 2 ^ nat (- e))" using e0 by (rule int_over_pow2)
  finally have "rne (x / pow2 e) \<le> n * 2 ^ nat (- e)" by (rule rne_le)
  then have "real_of_int (rne (x / pow2 e)) \<le> of_int (n * 2 ^ nat (- e))" by linarith
  also have "\<dots> = of_int n / pow2 e" using e0 by (simp only: int_over_pow2)
  finally have "real_of_int (rne (x / pow2 e)) * pow2 e \<le> of_int n"
    using u by (simp add: pos_le_divide_eq)
  then show ?thesis using False by (simp add: fl64_scaled e_def)
qed

text \<open>
  The quotient of a binary64 number by an integer, when it lies above an integer, lies
  above it by more than half a unit in the last place, so its rounding stays above. In
  the subnormal range this needs the dividend not to be a positive subnormal number:
  otherwise the quotient can round to zero.
\<close>

lemma fl64_gt_int:
  assumes q: "is_binary64 q" "\<bar>q\<bar> < 2 ^ 53" and k: "1 \<le> k" "real_of_int k < 2 ^ 53"
      and normal: "q \<le> 0 \<or> pow2 (- 1022) \<le> q"
      and lt: "of_int m < q / of_int k"
  shows "of_int m < fl64 (q / of_int k)"
proof -
  define x where "x = q / real_of_int k"
  have kpos: "0 < real_of_int k" using k(1) by simp
  have k1: "1 \<le> real_of_int k" using k(1) by simp
  have xq: "\<bar>x\<bar> \<le> \<bar>q\<bar>"
  proof -
    have "\<bar>x\<bar> = \<bar>q\<bar> / real_of_int k" using kpos by (simp add: x_def)
    also have "\<dots> \<le> \<bar>q\<bar> / 1" using k1 by (intro divide_left_mono) auto
    finally show ?thesis by simp
  qed
  have mx: "of_int m < x" using lt by (simp add: x_def)
  show ?thesis
  proof (cases "x = 0")
    case True
    then have "real_of_int m < 0" using mx by simp
    moreover have "fl64 (q / real_of_int k) = 0" using True by (simp add: x_def fl64_def)
    ultimately show ?thesis by simp
  next
    case nz: False
    define e' where "e' = \<lfloor>log 2 \<bar>x\<bar>\<rfloor> - 52"
    define e where "e = max e' (- 1074)"
    define u where "u = pow2 e"
    have small: "\<bar>x\<bar> < 2 ^ 53" using xq q(2) by linarith
    have e0: "e \<le> 0" using scale_small[OF nz small] by (simp add: e_def e'_def)
    have upos: "0 < u" by (simp add: u_def pow2_pos)
    have half: "u / 2 < x - of_int m"
    proof (cases "- 1074 \<le> e'")
      case True
      then have ee: "e = e'" by (simp add: e_def)
      have ub: "2 ^ 52 * u \<le> \<bar>x\<bar>"
        using scale_bounds(1)[OF nz] by (simp add: ee e'_def u_def)
      obtain M c where qr: "q = of_int M * pow2 c" and M: "\<bar>M\<bar> < 2 ^ 53" and c0: "c \<le> 0"
        using binary64_nonpos_exponent[OF q] by blast
      define g where "g = pow2 c"
      have gpos: "0 < g" by (simp add: g_def pow2_pos)
      have ginv: "1 / g = of_int (2 ^ nat (- c))"
        using int_over_pow2[OF c0, of 1] by (simp add: g_def)
      \<comment> \<open>\<open>q\<close> and \<open>m * k\<close> are whole multiples of \<open>g\<close>, so their positive difference is at least \<open>g\<close>\<close>
      have diff_pos: "0 < q - of_int (m * k)" using lt kpos by (simp add: pos_less_divide_eq)
      have "q - of_int (m * k) = of_int (M - m * k * 2 ^ nat (- c)) * g"
      proof -
        have "of_int (m * k) = of_int (m * k) * (1 / g) * g" using gpos by simp
        also have "\<dots> = of_int (m * k * 2 ^ nat (- c)) * g" by (simp only: ginv of_int_mult)
        finally show ?thesis by (simp add: qr g_def algebra_simps)
      qed
      moreover from this diff_pos gpos have "0 < real_of_int (M - m * k * 2 ^ nat (- c))"
        by (simp add: zero_less_mult_iff)
      then have "0 < M - m * k * 2 ^ nat (- c)" by (simp only: of_int_0_less_iff)
      then have "1 \<le> M - m * k * 2 ^ nat (- c)" by simp
      then have "1 \<le> real_of_int (M - m * k * 2 ^ nat (- c))" by (simp only: of_int_1_le_iff)
      ultimately have diff_ge: "g \<le> q - of_int (m * k)" using gpos by simp
      \<comment> \<open>the unit in the last place of \<open>x\<close> is less than \<open>2 * g / k\<close>\<close>
      have qlt: "\<bar>q\<bar> < 2 ^ 53 * g"
      proof -
        have "\<bar>real_of_int M\<bar> < 2 ^ 53"
          using M by (metis of_int_abs of_int_less_numeral_power_cancel_iff)
        then show ?thesis using gpos by (simp add: qr g_def abs_mult)
      qed
      have "2 ^ 52 * u * real_of_int k \<le> \<bar>x\<bar> * real_of_int k" using ub kpos by simp
      also have "\<dots> = \<bar>q\<bar>" using kpos by (simp add: x_def)
      finally have uk: "2 ^ 52 * u * real_of_int k < 2 ^ 53 * g" using qlt by linarith
      then have uk2: "u * real_of_int k < 2 * g" by simp
      have "x - of_int m = (q - of_int (m * k)) / real_of_int k"
        using kpos by (simp add: x_def field_simps)
      then have xm: "g / real_of_int k \<le> x - of_int m"
        using diff_ge kpos by (simp add: divide_right_mono)
      have "u / 2 < g / real_of_int k" using uk2 kpos by (simp add: field_simps)
      then show ?thesis using xm by linarith
    next
      case False
      then have ee: "e = - 1074" and e'le: "e' \<le> - 1075" by (simp_all add: e_def)
      have split1: "pow2 (- 1022) = 2 ^ 53 * pow2 (- 1075)"
        using pow2_add[of 53 "- 1075"] by (simp add: pow2_53)
      have u_eq: "u = 2 * pow2 (- 1075)"
        using pow2_add[of 1 "- 1075"] by (simp add: u_def ee pow2_def)
      have u1: "u \<le> 1" unfolding u_def using e0 by (rule pow2_le_one)
      have "pow2 (- 1022) \<le> pow2 (- 1)" by (rule pow2_mono) simp
      then have p1: "pow2 (- 1022) \<le> 1 / 2" by (simp add: pow2_def)
      have "\<bar>x\<bar> < 2 ^ 53 * pow2 e'" using scale_bounds(2)[OF nz] by (simp add: e'_def)
      also have "\<dots> \<le> 2 ^ 53 * pow2 (- 1075)" using pow2_mono[OF e'le] by simp
      finally have xs: "\<bar>x\<bar> < pow2 (- 1022)" by (simp only: split1)
      have "real_of_int m < 1" using mx xs p1 by linarith
      then have m0: "m \<le> 0" by simp
      show ?thesis
      proof (cases "m = 0")
        case True
        then have "0 < x" using mx by simp
        then have "0 < q" using kpos by (simp add: x_def zero_less_divide_iff)
        then have qn: "pow2 (- 1022) \<le> q" using normal by auto
        have "pow2 (- 1075) * real_of_int k < pow2 (- 1075) * 2 ^ 53"
          using k(2) pow2_pos[of "- 1075"] by simp
        also have "\<dots> = pow2 (- 1022)" by (simp only: split1 mult.commute)
        finally have "pow2 (- 1075) * real_of_int k < q" using qn by linarith
        then have "pow2 (- 1075) < x" using kpos by (simp add: x_def pos_less_divide_eq)
        then show ?thesis using True u_eq by simp
      next
        case False
        then have "m \<le> - 1" using m0 by simp
        then have "real_of_int m \<le> - 1" by linarith
        then have "1 / 2 < x - of_int m" using xs p1 by linarith
        then show ?thesis using u1 by linarith
      qed
    qed
    have "of_int m / u + 1 / 2 < x / u"
    proof -
      have "1 / 2 < (x - of_int m) / u" using half upos by (simp add: field_simps)
      also have "(x - of_int m) / u = x / u - of_int m / u" by (rule diff_divide_distrib)
      finally show ?thesis by linarith
    qed
    moreover have "of_int m / u = of_int (m * 2 ^ nat (- e))"
      using e0 unfolding u_def by (rule int_over_pow2)
    ultimately have "m * 2 ^ nat (- e) < rne (x / u)" by (intro rne_gt) simp
    then have "real_of_int (m * 2 ^ nat (- e)) < real_of_int (rne (x / u))" by linarith
    moreover have "real_of_int (m * 2 ^ nat (- e)) = of_int m / u"
      using e0 unfolding u_def by (simp only: int_over_pow2)
    ultimately have "of_int m < real_of_int (rne (x / u)) * u"
      using upos by (simp add: pos_divide_less_eq)
    then show ?thesis
      using nz by (simp add: fl64_scaled x_def[symmetric] e_def e'_def u_def)
  qed
qed

text \<open>So the ceiling of the rounded quotient is the ceiling of the exact quotient.\<close>

lemma ceiling_fl64_quotient:
  assumes "is_binary64 q" "\<bar>q\<bar> < 2 ^ 53" "1 \<le> k" "real_of_int k < 2 ^ 53"
      and "q \<le> 0 \<or> pow2 (- 1022) \<le> q"
  shows "\<lceil>fl64 (q / of_int k)\<rceil> = \<lceil>q / of_int k\<rceil>"
proof -
  define x where "x = q / real_of_int k"
  define n where "n = \<lceil>x\<rceil>"
  have k1: "1 \<le> real_of_int k" using assms(3) by simp
  have "\<bar>x\<bar> = \<bar>q\<bar> / real_of_int k" using k1 by (simp add: x_def)
  also have "\<dots> \<le> \<bar>q\<bar> / 1" using k1 by (intro divide_left_mono) auto
  finally have small: "\<bar>x\<bar> < 2 ^ 53" using assms(2) by simp
  have "x \<le> of_int n" by (simp add: n_def)
  then have up: "fl64 x \<le> of_int n" using small by (rule fl64_le_int)
  have "of_int (n - 1) < x" unfolding n_def by linarith
  then have lo: "of_int (n - 1) < fl64 x"
    unfolding x_def using assms by (intro fl64_gt_int) auto
  from up lo have "\<lceil>fl64 x\<rceil> = n" by (simp add: ceiling_eq_iff)
  then show ?thesis by (simp add: x_def n_def)
qed

subsection \<open>The adjuster\<close>

lemma ajusta_value:
  "ajusta_por_moq_multiplo (Some (Fin q)) (Fin m) (Fin k) =
     Inr (Some (Fin (let q_adj = (if 0 < m \<and> q < m then m else q)
                     in if 0 < k then fl64 (k * of_int \<lceil>fl64 (q_adj / k)\<rceil>) else q_adj)))"
  by (auto simp: ajusta_por_moq_multiplo_def pydiv_def Let_def)

lemma ajusta_no_moq:
  "0 < k \<Longrightarrow> ajusta_por_moq_multiplo (Some (Fin q)) (Fin 0) (Fin k) =
     Inr (Some (Fin (fl64 (k * of_int \<lceil>fl64 (q / k)\<rceil>))))"
  by (simp add: ajusta_value Let_def)

text \<open>
  The binary64 number nearest to \<open>0.1\<close> is \<open>3602879701896397 / 2^55\<close>. With that lot
  multiple and \<open>q = 0.25\<close>: the quotient rounds to \<open>2.5\<close>, three lots round to
  \<open>1351079888211149 / 2^52\<close> (printed \<open>0.30000000000000004\<close>); dividing that by the lot
  multiple rounds to \<open>3.0000000000000004\<close>, whose ceiling is \<open>4\<close>, and four lots are
  \<open>3602879701896397 / 2^53\<close> (printed \<open>0.4\<close>).
\<close>

lemma tenth_quotient:
  "fl64 ((1 / 4) / (3602879701896397 / 36028797018963968)) = 5 / 2"
proof -
  have "fl64 ((1 / 4) / (3602879701896397 / 36028797018963968)) =
      of_int (rne (((1 / 4) / (3602879701896397 / 36028797018963968)) / pow2 (1 - 52)))
        * pow2 (1 - 52)"
    by (rule fl64_binade) (simp_all add: pow2_def)
  also have "\<dots> = 5 / 2"
    by (simp add: pow2_def rne_def Let_def)
  finally show ?thesis .
qed

lemma tenth_three_lots:
  "fl64 ((3602879701896397 / 36028797018963968) * 3) = 1351079888211149 / 4503599627370496"
proof -
  have "fl64 ((3602879701896397 / 36028797018963968) * 3) =
      of_int (rne (((3602879701896397 / 36028797018963968) * 3) / pow2 (- 2 - 52)))
        * pow2 (- 2 - 52)"
    by (rule fl64_binade) (simp_all add: pow2_def)
  also have "\<dots> = 1351079888211149 / 4503599627370496"
    by (simp add: pow2_def rne_def Let_def)
  finally show ?thesis .
qed

lemma tenth_quotient_again:
  "fl64 ((1351079888211149 / 4503599627370496) / (3602879701896397 / 36028797018963968))
     = 6755399441055745 / 2251799813685248"
proof -
  have "fl64 ((1351079888211149 / 4503599627370496) / (3602879701896397 / 36028797018963968)) =
      of_int (rne (((1351079888211149 / 4503599627370496)
                     / (3602879701896397 / 36028797018963968)) / pow2 (1 - 52)))
        * pow2 (1 - 52)"
    by (rule fl64_binade) (simp_all add: pow2_def)
  also have "\<dots> = 6755399441055745 / 2251799813685248"
    by (simp add: pow2_def rne_def Let_def)
  finally show ?thesis .
qed

lemma tenth_four_lots:
  "fl64 ((3602879701896397 / 36028797018963968) * 4) = 3602879701896397 / 9007199254740992"
proof -
  have "fl64 ((3602879701896397 / 36028797018963968) * 4) =
      of_int (rne (((3602879701896397 / 36028797018963968) * 4) / pow2 (- 2 - 52)))
        * pow2 (- 2 - 52)"
    by (rule fl64_binade) (simp_all add: pow2_def)
  also have "\<dots> = 3602879701896397 / 9007199254740992"
    by (simp add: pow2_def rne_def Let_def)
  finally show ?thesis .
qed

text \<open>
  Claim C3, as stated, fails in binary64 for a lot multiple that is not an integer:
  with \<open>q = 0.25\<close>, no minimum order and the lot multiple \<open>0.1\<close>, the function returns
  \<open>0.30000000000000004\<close>, and applied to that it returns \<open>0.4\<close>.
\<close>

theorem ajusta_por_moq_multiplo_counterexample:
  "ajusta_por_moq_multiplo (Some (Fin (1 / 4))) (Fin 0)
       (Fin (3602879701896397 / 36028797018963968))
     = Inr (Some (Fin (1351079888211149 / 4503599627370496)))
   \<and> ajusta_por_moq_multiplo (Some (Fin (1351079888211149 / 4503599627370496))) (Fin 0)
       (Fin (3602879701896397 / 36028797018963968))
     = Inr (Some (Fin (3602879701896397 / 9007199254740992)))
   \<and> (1351079888211149 / 4503599627370496 :: real) \<noteq> 3602879701896397 / 9007199254740992"
proof -
  have c1: "\<lceil>5 / 2 :: real\<rceil> = 3" by simp
  have c2: "\<lceil>6755399441055745 / 2251799813685248 :: real\<rceil> = 4" by simp
  have "ajusta_por_moq_multiplo (Some (Fin (1 / 4))) (Fin 0)
       (Fin (3602879701896397 / 36028797018963968))
     = Inr (Some (Fin (fl64 ((3602879701896397 / 36028797018963968)
          * of_int \<lceil>fl64 ((1 / 4) / (3602879701896397 / 36028797018963968))\<rceil>))))"
    by (rule ajusta_no_moq) simp
  then have 1: "ajusta_por_moq_multiplo (Some (Fin (1 / 4))) (Fin 0)
       (Fin (3602879701896397 / 36028797018963968))
     = Inr (Some (Fin (1351079888211149 / 4503599627370496)))"
    by (simp only: tenth_quotient c1 of_int_numeral tenth_three_lots)
  have "ajusta_por_moq_multiplo (Some (Fin (1351079888211149 / 4503599627370496))) (Fin 0)
       (Fin (3602879701896397 / 36028797018963968))
     = Inr (Some (Fin (fl64 ((3602879701896397 / 36028797018963968)
          * of_int \<lceil>fl64 ((1351079888211149 / 4503599627370496)
                             / (3602879701896397 / 36028797018963968))\<rceil>))))"
    by (rule ajusta_no_moq) simp
  then have 2: "ajusta_por_moq_multiplo (Some (Fin (1351079888211149 / 4503599627370496))) (Fin 0)
       (Fin (3602879701896397 / 36028797018963968))
     = Inr (Some (Fin (3602879701896397 / 9007199254740992)))"
    by (simp only: tenth_quotient_again c2 of_int_numeral tenth_four_lots)
  have 3: "(1351079888211149 / 4503599627370496 :: real) \<noteq> 3602879701896397 / 9007199254740992"
    by simp
  show ?thesis using 1 2 3 by (intro conjI)
qed

lemma abs_ceiling_times:
  fixes a :: real and k :: int
  assumes "1 \<le> k"
  shows "real_of_int \<bar>k * \<lceil>a / of_int k\<rceil>\<bar> < \<bar>a\<bar> + of_int k"
proof -
  define n where "n = \<lceil>a / of_int k\<rceil>"
  have kpos: "0 < real_of_int k" using assms by simp
  have le: "a / of_int k \<le> of_int n" and lt: "of_int n < a / of_int k + 1"
    unfolding n_def by linarith+
  have "a / of_int k * of_int k \<le> of_int n * of_int k"
    using le kpos by (intro mult_right_mono) simp_all
  then have 1: "a \<le> of_int n * of_int k" using kpos by simp
  have "of_int n * real_of_int k < (a / of_int k + 1) * of_int k"
    using lt kpos by (intro mult_strict_right_mono)
  also have "\<dots> = a + of_int k" using kpos by (simp add: distrib_right)
  finally have 2: "of_int n * real_of_int k < a + of_int k" .
  have "\<bar>real_of_int n * of_int k\<bar> < \<bar>a\<bar> + of_int k" using 1 2 kpos by linarith
  then have "real_of_int \<bar>k * n\<bar> < \<bar>a\<bar> + of_int k" by (simp add: mult.commute abs_mult)
  then show ?thesis by (simp add: n_def)
qed

text \<open>
  Claim C3, amended: for binary64 numbers \<open>q\<close> and \<open>moq \<ge> 0\<close>, neither of them a positive
  subnormal number (below \<open>2^-1022\<close>), and a lot multiple that is an integer \<open>k \<ge> 0\<close>,
  all of ordinary size (\<open>|q| + k\<close> and \<open>moq + k\<close> below \<open>2^53\<close>),
  \<open>ajusta_por_moq_multiplo\<close> returns a number \<open>y\<close> on which a second application
  returns \<open>y\<close> again; \<open>y \<ge> moq\<close> when \<open>moq > 0\<close>, and \<open>y\<close> is an integer multiple of the
  lot multiple when that is positive.
\<close>

theorem ajusta_por_moq_multiplo_idempotent:
  assumes "is_binary64 q" "is_binary64 m" "0 \<le> m" "0 \<le> k"
      and "q \<le> 0 \<or> pow2 (- 1022) \<le> q" "m = 0 \<or> pow2 (- 1022) \<le> m"
      and "\<bar>q\<bar> + of_int k < 2 ^ 53" "m + of_int k < 2 ^ 53"
  shows "\<exists>y. ajusta_por_moq_multiplo (Some (Fin q)) (Fin m) (Fin (of_int k)) = Inr (Some (Fin y))
           \<and> ajusta_por_moq_multiplo (Some (Fin y)) (Fin m) (Fin (of_int k)) = Inr (Some (Fin y))
           \<and> (0 < m \<longrightarrow> m \<le> y)
           \<and> (0 < k \<longrightarrow> (\<exists>n::int. y = of_int k * of_int n))"
proof -
  define q_adj where "q_adj = (if 0 < m \<and> q < m then m else q)"
  have adj64: "is_binary64 q_adj" using assms(1,2) by (simp add: q_adj_def)
  have adj_ge: "0 < m \<Longrightarrow> m \<le> q_adj" by (simp add: q_adj_def)
  have adj_size: "\<bar>q_adj\<bar> + of_int k < 2 ^ 53" using assms(3,7,8) by (simp add: q_adj_def)
  have adj_normal: "q_adj \<le> 0 \<or> pow2 (- 1022) \<le> q_adj"
    using assms(5,6) by (auto simp: q_adj_def)
  show ?thesis
  proof (cases "0 < k")
    case False
    then have k0: "\<not> 0 < real_of_int k" by simp
    have 1: "ajusta_por_moq_multiplo (Some (Fin q)) (Fin m) (Fin (of_int k)) = Inr (Some (Fin q_adj))"
      using k0 by (simp add: ajusta_value q_adj_def Let_def)
    have "(if 0 < m \<and> q_adj < m then m else q_adj) = q_adj" using adj_ge by auto
    then have 2: "ajusta_por_moq_multiplo (Some (Fin q_adj)) (Fin m) (Fin (of_int k)) = Inr (Some (Fin q_adj))"
      using k0 by (simp add: ajusta_value Let_def)
    show ?thesis using 1 2 adj_ge False by blast
  next
    case True
    then have k1: "1 \<le> k" and kpos: "0 < real_of_int k" by simp_all
    define n where "n = \<lceil>q_adj / of_int k\<rceil>"
    define y where "y = real_of_int k * of_int n"
    have small: "\<bar>q_adj\<bar> < 2 ^ 53" using adj_size kpos by linarith
    have ksmall: "real_of_int k < 2 ^ 53" using adj_size by linarith
    have ceil1: "\<lceil>fl64 (q_adj / of_int k)\<rceil> = n"
      unfolding n_def using adj64 small k1 ksmall adj_normal by (rule ceiling_fl64_quotient)
    have "real_of_int \<bar>k * n\<bar> < \<bar>q_adj\<bar> + of_int k"
      using abs_ceiling_times[OF k1, of q_adj] by (simp add: n_def)
    then have "real_of_int \<bar>k * n\<bar> < 2 ^ 53" using adj_size by linarith
    then have kn: "\<bar>k * n\<bar> < 2 ^ 53" by (metis of_int_less_numeral_power_cancel_iff)
    have prod: "fl64 (of_int k * of_int n) = of_int k * of_int n"
      using fl64_of_int[OF kn] by simp
    have "\<bar>n\<bar> \<le> \<bar>k * n\<bar>" using k1 by (simp add: abs_mult mult_le_cancel_right1)
    then have nn: "\<bar>n\<bar> < 2 ^ 53" using kn by linarith
    have 1: "ajusta_por_moq_multiplo (Some (Fin q)) (Fin m) (Fin (of_int k)) = Inr (Some (Fin y))"
      using kpos by (simp add: ajusta_value Let_def q_adj_def[symmetric] ceil1 prod y_def)
    have "q_adj / of_int k \<le> of_int n" by (simp add: n_def)
    then have y_ge: "q_adj \<le> y" using kpos by (simp add: y_def pos_divide_le_eq mult.commute)
    have moq: "0 < m \<longrightarrow> m \<le> y" using adj_ge y_ge by auto
    have keep: "(if 0 < m \<and> y < m then m else y) = y" using moq by auto
    have "y / of_int k = of_int n" using kpos by (simp add: y_def)
    then have ceil2: "\<lceil>fl64 (y / of_int k)\<rceil> = n" using fl64_of_int[OF nn] by simp
    have 2: "ajusta_por_moq_multiplo (Some (Fin y)) (Fin m) (Fin (of_int k)) = Inr (Some (Fin y))"
      using kpos by (simp add: ajusta_value Let_def keep ceil2 prod) (simp add: y_def)
    have "\<exists>n::int. y = of_int k * of_int n" by (auto simp: y_def)
    then show ?thesis using 1 2 moq by blast
  qed
qed

lemma is_binary64_of_int:
  assumes "\<bar>z\<bar> < 2 ^ 53"
  shows "is_binary64 (of_int z)"
  unfolding is_binary64_def using assms by (intro exI[of _ z] exI[of _ 0]) (simp add: pow2_def)

lemma is_binary64_half:
  assumes "\<bar>z\<bar> < 2 ^ 53"
  shows "is_binary64 (of_int z / 2)"
  unfolding is_binary64_def using assms by (intro exI[of _ z] exI[of _ "- 1"]) (simp add: pow2_def)

text \<open>
  A quantity of \<open>1511.5\<close> with a minimum order of \<open>200\<close> and lots of \<open>250\<close>: the quotient
  \<open>6.046\<close> is not a binary64 number, its rounding has ceiling \<open>7\<close>, and \<open>1750\<close> is
  returned, and returned again.
\<close>

theorem ajusta_por_moq_multiplo_idempotent_witness:
  "ajusta_por_moq_multiplo (Some (Fin (3023 / 2))) (Fin 200) (Fin 250) = Inr (Some (Fin 1750))
   \<and> ajusta_por_moq_multiplo (Some (Fin 1750)) (Fin 200) (Fin 250) = Inr (Some (Fin 1750))
   \<and> (200 :: real) \<le> 1750 \<and> (1750 :: real) = 250 * 7"
proof -
  have a: "is_binary64 (3023 / 2)" using is_binary64_half[of 3023] by simp
  have b: "is_binary64 200" using is_binary64_of_int[of 200] by simp
  have n: "pow2 (- 1022) \<le> 1" by (rule pow2_le_one) simp
  then have na: "pow2 (- 1022) \<le> 3023 / 2" and nb: "pow2 (- 1022) \<le> 200" by linarith+
  have "\<lceil>fl64 (3023 / 2 / real_of_int 250)\<rceil> = \<lceil>3023 / 2 / real_of_int 250\<rceil>"
    using a na by (intro ceiling_fl64_quotient) simp_all
  also have "\<dots> = 7" by simp
  finally have c: "\<lceil>fl64 (3023 / 2 / 250)\<rceil> = 7" by simp
  have p: "fl64 1750 = 1750" using fl64_of_int[of 1750] by simp
  have v: "ajusta_por_moq_multiplo (Some (Fin (3023 / 2))) (Fin 200) (Fin 250) = Inr (Some (Fin 1750))"
    using c p by (simp add: ajusta_value Let_def)
  from ajusta_por_moq_multiplo_idempotent[of "3023 / 2" 200 250] a b na nb v show ?thesis by auto
qed

section \<open>Verification: baseline policy and savings\<close>

text \<open>
  Claim C4: for every supplied baseline reorder point \<open>r0 > 0\<close>, in the calculator and in
  the batch evaluator alike, the baseline safety stock is a number \<open>s \<ge> 0\<close>, equal to
  \<open>max(0, r0 - mu_L)\<close>, hence \<open>0\<close> when \<open>r0 < mu_L\<close>, and the baseline reorder point is
  \<open>r0\<close> itself.
\<close>

theorem SS_base_never_negative:
  assumes "0 < r0"
  shows "\<exists>s. SS_base (Fin r0) mu_L dflt = (Fin s, Fin r0)
            \<and> SS_base_batch (Fin r0) mu_L z sigma_L = (Fin s, Fin r0)
            \<and> 0 \<le> s
            \<and> (\<forall>m. mu_L = Fin m \<longrightarrow> s = max 0 (r0 - m))
            \<and> (\<forall>m. mu_L = Fin m \<and> r0 < m \<longrightarrow> s = 0)"
  using assms by (cases mu_L) (auto simp: SS_base_def SS_base_batch_def pymax_def)

theorem SS_base_never_negative_witness:
  "SS_base (Fin 5) (Fin 8) NaN = (Fin 0, Fin 5) \<and> SS_base_batch (Fin 5) (Fin 8) NaN NaN = (Fin 0, Fin 5)"
  using SS_base_never_negative[of 5 "Fin 8" NaN NaN NaN] by auto

lemma eoq_total: "\<exists>v. eoq D K h = Inr v"
  by (cases D; cases K; cases h) (auto simp: eoq_def pydiv_def)

lemma ajusta_total: "\<exists>v. ajusta_por_moq_multiplo qo moq multiplo = Inr v"
  by (cases qo; cases moq; cases multiplo)
     (auto simp: ajusta_por_moq_multiplo_def pydiv_def Let_def)

lemma ajusta_nan: "ajusta_por_moq_multiplo (Some NaN) moq multiplo = Inr (Some NaN)"
  by (simp add: ajusta_por_moq_multiplo_def)

lemma custos_total: "\<exists>a b c. custos_periodicos Qo D K h SS = Inr (a, b, c)"
  by (cases Qo; cases D; cases K; cases h)
     (auto simp: custos_periodicos_def pydiv_def Let_def split: pyfloat.splits)

lemma economia_pct_total: "\<exists>p. economia_pct e b = Inr p"
  by (cases b) (auto simp: economia_pct_def pydiv_def)

lemma economia_pct_nan_iff:
  "economia_pct (economia_per b opt) b = Inr p \<Longrightarrow>
     isnan p \<longleftrightarrow> \<not> isfinite b \<or> \<not> flt (Fin 0) b \<or> \<not> isfinite opt"
  by (cases b; cases opt) (auto simp: economia_pct_def economia_per_def pydiv_def split: if_splits)

lemma economia_pct_value:
  "economia_pct e b = Inr p \<Longrightarrow> \<not> isnan p \<Longrightarrow> p = fmul (fdiv e b) (Fin 100)"
  by (cases b; cases e) (auto simp: economia_pct_def pydiv_def split: if_splits)

lemma custos_nan_Q: "\<exists>a b. custos_periodicos (Some NaN) D K h SS = Inr (a, b, NaN)"
  by (cases D; cases K; cases h) (auto simp: custos_periodicos_def pydiv_def Let_def)

lemma custos_nonpositive:
  assumes "custos_periodicos (Some Q) D K h SS = Inr (a, b, Fin t)" "t \<le> 0"
  shows "K = Fin 0 \<and> h = Fin 0"
proof -
  obtain q d k c where v: "Q = Fin q" "D = Fin d" "K = Fin k" "h = Fin c"
    using assms(1)
    by (cases Q; cases D; cases K; cases h)
       (auto simp: custos_periodicos_def pydiv_def Let_def split: if_splits)
  have g: "0 < q" "0 < d" "0 \<le> c" "0 \<le> k"
    using assms(1) unfolding v by (auto simp: custos_periodicos_def split: if_splits)
  have "\<exists>s. pymax (Fin 0) SS = Fin s \<and> 0 \<le> s"
    by (cases SS) (auto simp: pymax_def)
  then obtain s where s: "pymax (Fin 0) SS = Fin s" "0 \<le> s" by blast
  have t: "t = k * d / q + c * (q / 2 + s)"
    using assms(1) g s unfolding v by (auto simp: custos_periodicos_def pydiv_def)
  have p1: "0 \<le> k * d / q" using g by simp
  have p2: "0 \<le> c * (q / 2 + s)" using g s by simp
  from t p1 p2 assms(2) have z: "k * d / q = 0" "c * (q / 2 + s) = 0" by linarith+
  from z(1) g have "k = 0" by simp
  moreover from z(2) g s have "c = 0" by (auto simp: add_nonneg_eq_0_iff)
  ultimately show ?thesis by (simp add: v)
qed

lemma eoq_no_holding: "eoq D K (Fin 0) = Inr NaN"
  by (simp add: eoq_def)

lemma economia_never_raises:
  "\<exists>b opt pct. economia D K h moq multiplo Qb SSo SSb = Inr (b, opt, economia_per b opt, pct)
       \<and> economia_pct (economia_per b opt) b = Inr pct
       \<and> (\<exists>a1 a2. custos_periodicos (Some Qb) D K h SSb = Inr (a1, a2, b))
       \<and> (\<exists>Qo a1 a2. eoq D K h = Inr Qo
              \<and> (\<exists>Qa. ajusta_por_moq_multiplo (Some Qo) moq multiplo = Inr Qa
                     \<and> custos_periodicos Qa D K h SSo = Inr (a1, a2, opt)))"
proof -
  obtain Qo where 1: "eoq D K h = Inr Qo" using eoq_total by blast
  obtain Qa where 2: "ajusta_por_moq_multiplo (Some Qo) moq multiplo = Inr Qa"
    using ajusta_total by blast
  obtain a1 a2 opt where 3: "custos_periodicos Qa D K h SSo = Inr (a1, a2, opt)"
    using custos_total by blast
  obtain b1 b2 b where 4: "custos_periodicos (Some Qb) D K h SSb = Inr (b1, b2, b)"
    using custos_total by blast
  obtain pct where 5: "economia_pct (economia_per b opt) b = Inr pct"
    using economia_pct_total by blast
  have "economia D K h moq multiplo Qb SSo SSb = Inr (b, opt, economia_per b opt, pct)"
    by (simp add: economia_def bind_err_def 1 2 3 4 5)
  then show ?thesis using 1 2 3 4 5 by blast
qed

lemma economia_nonpositive_base:
  assumes "economia D K h moq multiplo Qb SSo SSb = Inr (b, opt, per, pct)"
      and "\<not> flt (Fin 0) b"
  shows "per = NaN"
proof -
  obtain b' opt' pct' where e: "economia D K h moq multiplo Qb SSo SSb = Inr (b', opt', economia_per b' opt', pct')"
    and cb: "\<exists>a1 a2. custos_periodicos (Some Qb) D K h SSb = Inr (a1, a2, b')"
    and co: "\<exists>Qo a1 a2. eoq D K h = Inr Qo
              \<and> (\<exists>Qa. ajusta_por_moq_multiplo (Some Qo) moq multiplo = Inr Qa
                     \<and> custos_periodicos Qa D K h SSo = Inr (a1, a2, opt'))"
    using economia_never_raises[of D K h moq multiplo Qb SSo SSb] by blast
  from e assms(1) have eq: "b' = b" "opt' = opt" "per = economia_per b opt" by auto
  show ?thesis
  proof (cases b)
    case NaN
    then show ?thesis by (simp add: eq economia_per_def)
  next
    case (Fin t)
    with assms(2) have "t \<le> 0" by simp
    with cb Fin eq have "K = Fin 0 \<and> h = Fin 0" using custos_nonpositive by blast
    then have "eoq D K h = Inr NaN" by (simp add: eoq_no_holding)
    with co eq have "\<exists>a1 a2. custos_periodicos (Some NaN) D K h SSo = Inr (a1, a2, opt)"
      by (auto simp: ajusta_nan)
    with custos_nan_Q[of D K h SSo] have "opt = NaN" by auto
    then show ?thesis by (simp add: eq economia_per_def)
  qed
qed

text \<open>
  Claim C8, as stated, fails for the percentage: with no holding cost (\<open>h_per = 0\<close>, a
  unit price or carrying rate of zero) and \<open>K = 80\<close>, \<open>D = 1500\<close>, \<open>Q_base = 1800\<close>, the
  baseline total cost is \<open>200/3\<close>, finite and strictly positive, the optimal total cost
  is not-a-number, and the percentage is not-a-number.
\<close>

theorem economia_counterexample:
  "economia (Fin 1500) (Fin 80) (Fin 0) (Fin 0) (Fin 0) (Fin 1800) (Fin 0) (Fin 0) =
     Inr (Fin (200 / 3), NaN, NaN, NaN)
   \<and> isfinite (Fin (200 / 3)) \<and> flt (Fin 0) (Fin (200 / 3))"
  by (simp add: economia_def bind_err_def eoq_def ajusta_por_moq_multiplo_def
      custos_periodicos_def pydiv_def pymax_def economia_per_def economia_pct_def Let_def)

text \<open>
  Claim C8, amended: the cost comparison raises no exception; the per-period savings is
  not-a-number whenever either total cost is not finite or the baseline total cost is
  not positive; the percentage is not-a-number exactly when the baseline total cost is
  not finite or not strictly positive or the optimal total cost is not finite; otherwise
  the savings is \<open>ctot_base - ctot_opt\<close> and the percentage is
  \<open>savings / ctot_base * 100\<close>.
\<close>

theorem economia_correct:
  "\<exists>b opt per pct. economia D K h moq multiplo Qb SSo SSb = Inr (b, opt, per, pct)
     \<and> (\<not> isfinite b \<or> \<not> isfinite opt \<or> \<not> flt (Fin 0) b \<longrightarrow> per = NaN)
     \<and> (isnan pct \<longleftrightarrow> \<not> isfinite b \<or> \<not> flt (Fin 0) b \<or> \<not> isfinite opt)
     \<and> (isfinite b \<and> isfinite opt \<longrightarrow> per = fsub b opt)
     \<and> (\<not> isnan pct \<longrightarrow> pct = fmul (fdiv per b) (Fin 100))"
proof -
  obtain b opt pct where e: "economia D K h moq multiplo Qb SSo SSb = Inr (b, opt, economia_per b opt, pct)"
    and p: "economia_pct (economia_per b opt) b = Inr pct"
    using economia_never_raises[of D K h moq multiplo Qb SSo SSb] by blast
  have 1: "\<not> isfinite b \<or> \<not> isfinite opt \<or> \<not> flt (Fin 0) b \<longrightarrow> economia_per b opt = NaN"
    using economia_nonpositive_base[OF e] by (auto simp: economia_per_def)
  have 2: "isnan pct \<longleftrightarrow> \<not> isfinite b \<or> \<not> flt (Fin 0) b \<or> \<not> isfinite opt"
    using economia_pct_nan_iff[OF p] .
  have 3: "isfinite b \<and> isfinite opt \<longrightarrow> economia_per b opt = fsub b opt"
    by (simp add: economia_per_def)
  have 4: "\<not> isnan pct \<longrightarrow> pct = fmul (fdiv (economia_per b opt) b) (Fin 100)"
    using economia_pct_value[OF p] by blast
  show ?thesis using e 1 2 3 4 by blast
qed

theorem economia_correct_witness:
  "economia (Fin 600) (Fin 100) (Fin 3) (Fin 0) (Fin 0) (Fin 100) (Fin 0) (Fin 0) =
     Inr (Fin 750, Fin 600, Fin 150, Fin 20)"
proof -
  have s: "sqrt 40000 = 200" by (rule real_sqrt_unique) simp_all
  have q: "eoq (Fin 600) (Fin 100) (Fin 3) = Inr (Fin 200)"
    by (simp add: eoq_def pydiv_def s)
  have o: "custos_periodicos (Some (Fin 200)) (Fin 600) (Fin 100) (Fin 3) (Fin 0) = Inr (Fin 300, Fin 300, Fin 600)"
    by (simp add: custos_periodicos_def pydiv_def pymax_def Let_def)
  have b: "custos_periodicos (Some (Fin 100)) (Fin 600) (Fin 100) (Fin 3) (Fin 0) = Inr (Fin 600, Fin 150, Fin 750)"
    by (simp add: custos_periodicos_def pydiv_def pymax_def Let_def)
  have a: "ajusta_por_moq_multiplo (Some (Fin 200)) (Fin 0) (Fin 0) = Inr (Some (Fin 200))"
    by (simp add: ajusta_por_moq_multiplo_def)
  have "\<exists>pct. economia (Fin 600) (Fin 100) (Fin 3) (Fin 0) (Fin 0) (Fin 100) (Fin 0) (Fin 0) =
     Inr (Fin 750, Fin 600, Fin 150, pct) \<and> pct = fmul (fdiv (Fin 150) (Fin 750)) (Fin 100)"
    using economia_correct[of "Fin 600" "Fin 100" "Fin 3" "Fin 0" "Fin 0" "Fin 100" "Fin 0" "Fin 0"]
    by (auto simp: economia_def bind_err_def q a o b economia_per_def economia_pct_def pydiv_def)
  then show ?thesis by auto
qed

section \<open>Verification: inventory simulator\<close>

lemma sim_run_0: "sim_run a g 0 = sim_init a"
  by (simp add: sim_run_def)

lemma sim_run_Suc: "sim_run a g (Suc n) = sim_day a g (Suc n) (sim_run a g n)"
  by (simp add: sim_run_def)

lemma chegadas_fields:
  "y_onhand (chegadas t st) = y_onhand st"
  "stockout_days (chegadas t st) = stockout_days st"
  "rng_pos (chegadas t st) = rng_pos st"
  "order_times (chegadas t st) = order_times st"
  "x_days (chegadas t st) = x_days st"
  "y_pos (chegadas t st) = y_pos st"
  by (simp_all add: chegadas_def Let_def)

lemma consumo_fields:
  "y_onhand (consumo a g st) = y_onhand st"
  "pending (consumo a g st) = pending st"
  "order_times (consumo a g st) = order_times st"
  "arrival_times (consumo a g st) = arrival_times st"
  "x_days (consumo a g st) = x_days st"
  "y_pos (consumo a g st) = y_pos st"
  by (simp_all add: consumo_def Let_def)

lemma consumo_on_hand:
  "on_hand (consumo a g st) =
     (if arg_clamp_zero a \<and> on_hand st < demand a g st then 0 else on_hand st - demand a g st)"
  by (auto simp: consumo_def Let_def)

lemma consumo_stockout_days:
  "stockout_days (consumo a g st) =
     stockout_days st + (if arg_clamp_zero a \<and> on_hand st < demand a g st then 1 else 0)"
  by (auto simp: consumo_def Let_def)

lemma consumo_rng_pos:
  "rng_pos (consumo a g st) = (if arg_sigma_d_dia a \<le> 0 then rng_pos st else rng_pos st + 1)"
  by (auto simp: consumo_def Let_def)

lemma regra_fields:
  "on_hand (regra_Qr a t st) = on_hand st"
  "stockout_days (regra_Qr a t st) = stockout_days st"
  "rng_pos (regra_Qr a t st) = rng_pos st"
  "arrival_times (regra_Qr a t st) = arrival_times st"
  "y_onhand (regra_Qr a t st) = y_onhand st @ [on_hand st]"
  by (simp_all add: regra_Qr_def Let_def)

lemma sim_day_y_onhand:
  "y_onhand (sim_day a g t st) = y_onhand st @ [on_hand (sim_day a g t st)]"
  by (simp add: sim_day_def regra_fields consumo_fields chegadas_fields)

lemma sim_day_on_hand:
  "on_hand (sim_day a g t st) = on_hand (consumo a g (chegadas t st))"
  by (simp add: sim_day_def regra_fields)

lemma sim_day_stockout_days:
  "stockout_days (sim_day a g t st) =
     stockout_days st +
       (if arg_clamp_zero a \<and> on_hand (chegadas t st) < demand a g (chegadas t st) then 1 else 0)"
  by (simp add: sim_day_def regra_fields consumo_stockout_days chegadas_fields)

lemma sim_day_rng_pos:
  "rng_pos (sim_day a g t st) = (if arg_sigma_d_dia a \<le> 0 then rng_pos st else rng_pos st + 1)"
  by (simp add: sim_day_def regra_fields consumo_rng_pos chegadas_fields)

lemma length_y_onhand: "length (y_onhand (sim_run a g n)) = Suc n"
  by (induction n) (simp_all add: sim_run_0 sim_run_Suc sim_day_y_onhand sim_init_def Let_def)

lemma last_y_onhand: "last (y_onhand (sim_run a g n)) = on_hand (sim_run a g n)"
  by (cases n) (simp_all add: sim_run_0 sim_run_Suc sim_day_y_onhand sim_init_def Let_def)

lemma clamped_on_hand_nonneg:
  assumes "arg_clamp_zero a"
  shows "0 \<le> on_hand (sim_day a g t st)"
  using assms by (simp add: sim_day_on_hand consumo_on_hand)

lemma y_onhand_nonneg:
  assumes "arg_clamp_zero a" "0 \<le> on_hand (sim_init a)"
  shows "\<forall>v \<in> set (y_onhand (sim_run a g n)). 0 \<le> v"
proof (induction n)
  case 0
  then show ?case using assms(2) by (simp add: sim_run_0 sim_init_def Let_def)
next
  case (Suc n)
  then show ?case
    using clamped_on_hand_nonneg[OF assms(1)] by (simp add: sim_run_Suc sim_day_y_onhand)
qed

lemma stockout_days_step:
  assumes "arg_clamp_zero a"
  shows "stockout_days (sim_run a g (Suc n)) =
           stockout_days (sim_run a g n) + (if shortfall_day a g (Suc n) then 1 else 0)"
  using assms by (simp add: sim_run_Suc sim_day_stockout_days shortfall_day_def Let_def)

lemma stockout_days_count:
  assumes "arg_clamp_zero a"
  shows "stockout_days (sim_run a g n) = length (filter (shortfall_day a g) [1..<Suc n])"
proof (induction n)
  case 0
  then show ?case by (simp add: sim_run_0 sim_init_def Let_def)
next
  case (Suc n)
  then show ?case using stockout_days_step[OF assms] by simp
qed

lemma sim_init_on_hand:
  "on_hand (sim_init a) = (if arg_start_mode a = ''steady'' then arg_r a else arg_Q a)"
  by (simp add: sim_init_def Let_def)

text \<open>
  Claim C5: in every run with \<open>clamp_zero\<close> set and a nonnegative initial stock (\<open>r\<close> in
  steady mode, \<open>Q\<close> otherwise), the on-hand trace has one entry for each day \<open>0..T\<close>, all
  of them \<open>\<ge> 0\<close>, and the stockout counter goes up by one on exactly the days whose
  demand exceeds the on-hand level left after that day's arrivals: so it does from each
  day to the next, and the returned count is the number of such days.
\<close>

theorem sim_clamped_trace_nonneg:
  assumes "arg_clamp_zero a"
      and "0 \<le> (if arg_start_mode a = ''steady'' then arg_r a else arg_Q a)"
  shows "case sim_serrilhado_com_leadtime default_rng a of
           (x, y_on, y_p, ords, arrs, so) \<Rightarrow>
             length y_on = arg_T a + 1
           \<and> (\<forall>v \<in> set y_on. 0 \<le> v)
           \<and> so = length (filter (shortfall_day a (default_rng (arg_seed a))) [1..<Suc (arg_T a)])
           \<and> (\<forall>t \<in> {1..arg_T a}.
                 stockout_days (sim_run a (default_rng (arg_seed a)) t) =
                 stockout_days (sim_run a (default_rng (arg_seed a)) (t - 1))
                   + (if shortfall_day a (default_rng (arg_seed a)) t then 1 else 0))"
proof -
  let ?g = "default_rng (arg_seed a)"
  have init: "0 \<le> on_hand (sim_init a)" using assms(2) by (simp add: sim_init_on_hand)
  have steps: "\<forall>t \<in> {1..arg_T a}.
                 stockout_days (sim_run a ?g t) =
                 stockout_days (sim_run a ?g (t - 1)) + (if shortfall_day a ?g t then 1 else 0)"
  proof
    fix t assume "t \<in> {1..arg_T a}"
    then obtain n where "t = Suc n" by (cases t) auto
    then show "stockout_days (sim_run a ?g t) =
                 stockout_days (sim_run a ?g (t - 1)) + (if shortfall_day a ?g t then 1 else 0)"
      using stockout_days_step[OF assms(1), of ?g n] by simp
  qed
  show ?thesis
    using length_y_onhand[of a ?g "arg_T a"] y_onhand_nonneg[OF assms(1) init, of ?g "arg_T a"]
          stockout_days_count[OF assms(1), of ?g "arg_T a"] steps
    by (simp add: sim_serrilhado_com_leadtime_def Let_def)
qed

lemma rng_pos_run:
  "rng_pos (sim_run a g n) = (if arg_sigma_d_dia a \<le> 0 then 0 else n)"
  by (induction n) (simp_all add: sim_run_0 sim_run_Suc sim_day_rng_pos sim_init_def Let_def)

lemma demand_cong:
  assumes "0 < arg_sigma_d_dia a \<longrightarrow> g1 (rng_pos st) = g2 (rng_pos st)"
  shows "demand a g1 st = demand a g2 st"
  using assms by (auto simp: demand_def)

lemma sim_day_cong:
  assumes "0 < arg_sigma_d_dia a \<longrightarrow> g1 (rng_pos st) = g2 (rng_pos st)"
  shows "sim_day a g1 t st = sim_day a g2 t st"
proof -
  have "demand a g1 (chegadas t st) = demand a g2 (chegadas t st)"
    using assms by (intro demand_cong) (simp add: chegadas_fields)
  then show ?thesis by (simp add: sim_day_def consumo_def)
qed

lemma sim_run_cong:
  assumes "0 < arg_sigma_d_dia a \<longrightarrow> (\<forall>k<n. g1 k = g2 k)"
  shows "sim_run a g1 n = sim_run a g2 n"
  using assms
proof (induction n)
  case 0
  then show ?case by (simp add: sim_run_0)
next
  case (Suc n)
  then have eq: "sim_run a g1 n = sim_run a g2 n" by simp
  have "0 < arg_sigma_d_dia a \<longrightarrow> g1 (rng_pos (sim_run a g2 n)) = g2 (rng_pos (sim_run a g2 n))"
    using Suc.prems by (simp add: rng_pos_run)
  then show ?case by (simp add: sim_run_Suc eq sim_day_cong)
qed

text \<open>
  Claim C6: the outputs are determined by the arguments and by the variates the seeded
  generator yields during the run (none of them when \<open>sigma_d_dia \<le> 0\<close>, the first \<open>T\<close>
  otherwise). So two runs with identical arguments and seed, whose generators yield the
  same variates for that seed, return the same trace, order days, arrival days and
  stockout count; in particular two runs with the same generator do.
\<close>

theorem sim_deterministic:
  assumes "0 < arg_sigma_d_dia a \<longrightarrow> (\<forall>k < arg_T a. rng1 (arg_seed a) k = rng2 (arg_seed a) k)"
  shows "sim_serrilhado_com_leadtime rng1 a = sim_serrilhado_com_leadtime rng2 a"
  using sim_run_cong[of a "arg_T a" "rng1 (arg_seed a)" "rng2 (arg_seed a)"] assms
  by (simp add: sim_serrilhado_com_leadtime_def)

lemma chegadas_none:
  assumes "\<forall>(day, q) \<in> set (pending st). day \<noteq> t"
  shows "chegadas t st = st"
proof -
  have "filter (\<lambda>(day, q). day = t) (pending st) = []"
    using assms by (auto simp: filter_empty_conv)
  then show ?thesis by (simp add: chegadas_def)
qed

lemma regra_pending:
  "pending (regra_Qr a t st) =
     (if position st \<le> arg_r a then pending st @ [(t + arg_L a, arg_Q a)] else pending st)"
  by (simp add: regra_Qr_def Let_def)

lemma regra_order_times:
  "order_times (regra_Qr a t st) =
     (if position st \<le> arg_r a then order_times st @ [t] else order_times st)"
  by (simp add: regra_Qr_def Let_def)

lemma no_lead_time_invariant:
  assumes "arg_L a = 0"
  shows "(\<forall>(day, q) \<in> set (pending (sim_run a g n)). day \<le> n) \<and> arrival_times (sim_run a g n) = []"
proof (induction n)
  case 0
  then show ?case using assms by (simp add: sim_run_0 sim_init_def Let_def)
next
  case (Suc n)
  let ?st = "sim_run a g n"
  have "\<forall>(day, q) \<in> set (pending ?st). day \<noteq> Suc n" using Suc by fastforce
  then have c: "chegadas (Suc n) ?st = ?st" by (rule chegadas_none)
  have p: "\<forall>(day, q) \<in> set (pending (sim_run a g (Suc n))). day \<le> Suc n"
    using Suc assms
    by (auto simp: sim_run_Suc sim_day_def c regra_pending consumo_fields split: if_splits)
  have "arrival_times (sim_run a g (Suc n)) = []"
    using Suc by (simp add: sim_run_Suc sim_day_def c regra_fields consumo_fields)
  with p show ?case by simp
qed

lemma no_lead_time_step:
  assumes "arg_L a = 0"
  shows "on_hand (sim_run a g (Suc n)) = on_hand (consumo a g (sim_run a g n))"
proof -
  have "\<forall>(day, q) \<in> set (pending (sim_run a g n)). day \<noteq> Suc n"
    using no_lead_time_invariant[OF assms, of g n] by fastforce
  then have "chegadas (Suc n) (sim_run a g n) = sim_run a g n" by (rule chegadas_none)
  then show ?thesis by (simp add: sim_run_Suc sim_day_on_hand)
qed

lemma demand_nonneg:
  assumes "0 \<le> arg_d_dia a"
  shows "0 \<le> demand a g st"
  using assms by (simp add: demand_def)

lemma on_hand_run_nonneg:
  assumes "0 \<le> on_hand (sim_init a)" "arg_clamp_zero a"
  shows "0 \<le> on_hand (sim_run a g n)"
  using assms by (cases n) (simp_all add: sim_run_0 sim_run_Suc clamped_on_hand_nonneg)

lemma nth_y_onhand:
  assumes "i \<le> n"
  shows "y_onhand (sim_run a g n) ! i = on_hand (sim_run a g i)"
  using assms
proof (induction n)
  case 0
  then show ?case by (simp add: sim_run_0 sim_init_def Let_def)
next
  case (Suc n)
  show ?case
  proof (cases "i = Suc n")
    case True
    then show ?thesis
      using length_y_onhand[of a g n]
      by (simp add: sim_run_Suc[of a g n] sim_day_y_onhand nth_append)
  next
    case False
    with Suc have "i \<le> n" by simp
    then show ?thesis
      using Suc.IH length_y_onhand[of a g n]
      by (simp add: sim_run_Suc[of a g n] sim_day_y_onhand nth_append)
  qed
qed

text \<open>
  Claim C10, as stated, fails for the on-hand level: a steady start with a negative
  reorder point \<open>r = -5\<close> begins with on-hand \<open>-5\<close>, and on day 1 the clamp resets it
  to \<open>0\<close>, an increase, although nothing is delivered. (A negative \<open>d_dia\<close> with
  \<open>sigma_d_dia \<le> 0\<close> raises the on-hand level as well.)
\<close>

theorem sim_no_lead_time_counterexample:
  "sim_serrilhado_com_leadtime (\<lambda>s k. 0)
     \<lparr>arg_Q = 100, arg_r = - 5, arg_d_dia = 0, arg_L = 0, arg_sigma_d_dia = 0, arg_T = 2,
      arg_seed = 1, arg_clamp_zero = True, arg_start_mode = ''steady''\<rparr>
     = ([0, 1, 2], [- 5, 0, 0], [- 5, 100, 100], [], [], 1)
   \<and> \<not> ([- 5, 0, 0 :: real] ! Suc 0 \<le> [- 5, 0, 0] ! 0)"
  by (simp add: sim_serrilhado_com_leadtime_def sim_run_Suc sim_run_0 sim_day_def
        sim_init_def chegadas_def consumo_def demand_def regra_Qr_def position_def Let_def
        eval_nat_numeral)

text \<open>
  Claim C10, amended: with lead time \<open>L = 0\<close>, for every horizon, seed and start mode,
  the list of arrival days is empty; and, for a daily demand \<open>d_dia \<ge> 0\<close> and an initial
  stock that is not negative when clamping is on, the recorded on-hand level never
  increases from one day to the next.
\<close>

theorem sim_no_lead_time_never_delivers:
  assumes "arg_L a = 0"
  shows "case sim_serrilhado_com_leadtime default_rng a of
           (x, y_on, y_p, ords, arrs, so) \<Rightarrow>
             arrs = []
           \<and> (0 \<le> arg_d_dia a \<and>
               (arg_clamp_zero a \<longrightarrow> 0 \<le> (if arg_start_mode a = ''steady'' then arg_r a else arg_Q a))
               \<longrightarrow> (\<forall>i < arg_T a. y_on ! Suc i \<le> y_on ! i))"
proof -
  let ?g = "default_rng (arg_seed a)"
  have arr: "arrival_times (sim_run a ?g (arg_T a)) = []"
    using no_lead_time_invariant[OF assms] by blast
  have mono: "y_onhand (sim_run a ?g (arg_T a)) ! Suc i \<le> y_onhand (sim_run a ?g (arg_T a)) ! i"
    if d: "0 \<le> arg_d_dia a"
    and c: "arg_clamp_zero a \<longrightarrow> 0 \<le> (if arg_start_mode a = ''steady'' then arg_r a else arg_Q a)"
    and i: "i < arg_T a" for i
  proof -
    have dem: "0 \<le> demand a ?g (sim_run a ?g i)" using d by (rule demand_nonneg)
    have "on_hand (consumo a ?g (sim_run a ?g i)) \<le> on_hand (sim_run a ?g i)"
    proof (cases "arg_clamp_zero a")
      case True
      then have "0 \<le> on_hand (sim_init a)" using c by (simp add: sim_init_on_hand)
      then have "0 \<le> on_hand (sim_run a ?g i)" using True by (rule on_hand_run_nonneg)
      then show ?thesis using dem by (simp add: consumo_on_hand)
    next
      case False
      then show ?thesis using dem by (simp add: consumo_on_hand)
    qed
    then show ?thesis
      using i by (simp add: nth_y_onhand no_lead_time_step[OF assms])
  qed
  show ?thesis using arr mono by (simp add: sim_serrilhado_com_leadtime_def Let_def)
qed

lemma chegadas_pending:
  "pending (chegadas t st) = filter (\<lambda>(day, q). day \<noteq> t) (pending st)"
proof (cases "filter (\<lambda>(day, q). day = t) (pending st) = []")
  case True
  then have "\<forall>x \<in> set (pending st). \<not> (case x of (day, q) \<Rightarrow> day = t)"
    by (simp add: filter_empty_conv)
  then have "filter (\<lambda>(day, q). day \<noteq> t) (pending st) = pending st"
    by (auto simp: filter_id_conv)
  then show ?thesis using True by (simp add: chegadas_def)
next
  case False
  then have "pending st \<noteq> []" by auto
  then show ?thesis using False by (simp add: chegadas_def Let_def)
qed

lemma chegadas_arrival_times:
  "arrival_times (chegadas t st) =
     arrival_times st @ (if t \<in> set (map fst (pending st)) then [t] else [])"
proof (cases "filter (\<lambda>(day, q). day = t) (pending st) = []")
  case True
  then have "t \<notin> set (map fst (pending st))"
    by (auto simp: filter_empty_conv)
  then show ?thesis using True by (simp add: chegadas_def)
next
  case False
  then obtain x where "x \<in> set (pending st)" "fst x = t"
    by (auto simp: filter_empty_conv)
  then have "t \<in> set (map fst (pending st))" by force
  moreover have "pending st \<noteq> []" using False by auto
  ultimately show ?thesis using False by (simp add: chegadas_def Let_def)
qed

lemma map_fst_filter_day:
  "map fst (filter (\<lambda>(day, q). day \<noteq> t) xs) = filter (\<lambda>d. d \<noteq> t) (map fst xs)"
  by (induction xs) auto

lemma filter_drop_day:
  "filter (\<lambda>d. d \<noteq> Suc n) (map (\<lambda>s. s + l) (filter (\<lambda>s. n < s + l) os)) =
     map (\<lambda>s. s + l) (filter (\<lambda>s. Suc n < s + l) os)"
  by (induction os) auto

lemma filter_le_sorted:
  fixes c :: nat
  assumes "sorted_wrt (<) os" "c \<in> set os"
  shows "filter (\<lambda>s. s \<le> c) os = filter (\<lambda>s. s < c) os @ [c]"
  using assms
proof (induction os)
  case Nil
  then show ?case by simp
next
  case (Cons x xs)
  show ?case
  proof (cases "x = c")
    case True
    with Cons.prems have "\<forall>y \<in> set xs. c < y" by simp
    then have "filter (\<lambda>s. s \<le> c) xs = []" "filter (\<lambda>s. s < c) xs = []"
      by (auto simp: filter_empty_conv)
    then show ?thesis using True by simp
  next
    case False
    with Cons.prems have cin: "c \<in> set xs" and xc: "x < c" by auto
    from Cons.prems have "sorted_wrt (<) xs" by simp
    then have "filter (\<lambda>s. s \<le> c) xs = filter (\<lambda>s. s < c) xs @ [c]"
      using cin by (rule Cons.IH)
    then show ?thesis using xc by simp
  qed
qed

lemma steady_invariant:
  assumes steady: "arg_start_mode a = ''steady''" and lead: "1 \<le> arg_L a"
  shows "sorted_wrt (<) (order_times (sim_run a g n))
       \<and> (\<forall>s \<in> set (order_times (sim_run a g n)). 1 \<le> s \<and> s \<le> n)
       \<and> map fst (pending (sim_run a g n)) =
           (if n < arg_L a then [arg_L a] else [])
           @ map (\<lambda>s. s + arg_L a) (filter (\<lambda>s. n < s + arg_L a) (order_times (sim_run a g n)))
       \<and> arrival_times (sim_run a g n) =
           (if arg_L a \<le> n then [arg_L a] else [])
           @ map (\<lambda>s. s + arg_L a) (filter (\<lambda>s. s + arg_L a \<le> n) (order_times (sim_run a g n)))"
proof (induction n)
  case 0
  then show ?case using steady lead by (simp add: sim_run_0 sim_init_def Let_def)
next
  case (Suc n)
  define l where "l = arg_L a"
  define st where "st = sim_run a g n"
  define os where "os = order_times st"
  define st2 where "st2 = consumo a g (chegadas (Suc n) st)"
  have l1: "1 \<le> l" using lead by (simp add: l_def)
  from Suc have srt: "sorted_wrt (<) os" and rng: "\<forall>s \<in> set os. 1 \<le> s \<and> s \<le> n"
    and pend: "map fst (pending st) =
                 (if n < l then [l] else []) @ map (\<lambda>s. s + l) (filter (\<lambda>s. n < s + l) os)"
    and arr: "arrival_times st =
                 (if l \<le> n then [l] else []) @ map (\<lambda>s. s + l) (filter (\<lambda>s. s + l \<le> n) os)"
    by (simp_all add: l_def st_def os_def)
  have os2: "order_times st2 = os"
    by (simp add: st2_def consumo_fields chegadas_fields os_def)
  have pend2: "map fst (pending st2) =
                 (if Suc n < l then [l] else []) @ map (\<lambda>s. s + l) (filter (\<lambda>s. Suc n < s + l) os)"
  proof -
    have "map fst (pending st2) = filter (\<lambda>d. d \<noteq> Suc n) (map fst (pending st))"
      by (simp add: st2_def consumo_fields chegadas_pending map_fst_filter_day)
    also have "\<dots> = (if Suc n < l then [l] else [])
                     @ filter (\<lambda>d. d \<noteq> Suc n) (map (\<lambda>s. s + l) (filter (\<lambda>s. n < s + l) os))"
      unfolding pend by auto
    finally show ?thesis by (simp only: filter_drop_day)
  qed
  have mem: "Suc n \<in> set (map fst (pending st)) \<longleftrightarrow> l = Suc n \<or> (\<exists>s \<in> set os. s + l = Suc n)"
  proof -
    have "Suc n \<in> set (map (\<lambda>s. s + l) (filter (\<lambda>s. n < s + l) os))
            \<longleftrightarrow> (\<exists>s \<in> set os. s + l = Suc n)"
      by (force simp: image_iff)
    then show ?thesis unfolding pend by auto
  qed
  have arr2: "arrival_times st2 =
                (if l \<le> Suc n then [l] else [])
                @ map (\<lambda>s. s + l) (filter (\<lambda>s. s + l \<le> Suc n) os)"
  proof -
    have a2: "arrival_times st2 =
                arrival_times st @ (if Suc n \<in> set (map fst (pending st)) then [Suc n] else [])"
      by (simp add: st2_def consumo_fields chegadas_arrival_times)
    consider (first) "l = Suc n" | (later) "l \<noteq> Suc n" "\<exists>s \<in> set os. s + l = Suc n"
      | (none) "l \<noteq> Suc n" "\<not> (\<exists>s \<in> set os. s + l = Suc n)" by blast
    then show ?thesis
    proof cases
      case first
      have "filter (\<lambda>s. s + l \<le> n) os = []" "filter (\<lambda>s. s + l \<le> Suc n) os = []"
        using rng first by (auto simp: filter_empty_conv)
      then show ?thesis using first mem by (simp add: a2 arr)
    next
      case later
      then obtain c where c: "c \<in> set os" "c + l = Suc n" by blast
      have "filter (\<lambda>s. s + l \<le> Suc n) os = filter (\<lambda>s. s \<le> c) os"
        using c by (intro filter_cong) auto
      moreover have "filter (\<lambda>s. s + l \<le> n) os = filter (\<lambda>s. s < c) os"
        using c by (intro filter_cong) auto
      ultimately have "filter (\<lambda>s. s + l \<le> Suc n) os = filter (\<lambda>s. s + l \<le> n) os @ [c]"
        using filter_le_sorted[OF srt c(1)] by simp
      moreover have "l \<le> n" using c rng by force
      ultimately show ?thesis using later mem c by (simp add: a2 arr)
    next
      case none
      have "filter (\<lambda>s. s + l \<le> Suc n) os = filter (\<lambda>s. s + l \<le> n) os"
        using none by (intro filter_cong) (auto simp: le_Suc_eq)
      moreover have "l \<le> Suc n \<longleftrightarrow> l \<le> n" using none by auto
      ultimately show ?thesis using none mem by (simp add: a2 arr)
    qed
  qed
  have run: "sim_run a g (Suc n) = regra_Qr a (Suc n) st2"
    by (simp add: sim_run_Suc sim_day_def st2_def st_def)
  show ?case
  proof (cases "position st2 \<le> arg_r a")
    case True
    have o3: "order_times (sim_run a g (Suc n)) = os @ [Suc n]"
      using True by (simp add: run regra_order_times os2)
    have p3: "map fst (pending (sim_run a g (Suc n))) = map fst (pending st2) @ [Suc n + l]"
      using True by (simp add: run regra_pending l_def)
    have a3: "arrival_times (sim_run a g (Suc n)) = arrival_times st2"
      by (simp add: run regra_fields)
    have "sorted_wrt (<) (os @ [Suc n])"
      using srt rng by (auto simp: sorted_wrt_append)
    moreover have "\<forall>s \<in> set (os @ [Suc n]). 1 \<le> s \<and> s \<le> Suc n" using rng by auto
    ultimately show ?thesis
      using l1 by (simp add: o3 p3 a3 pend2 arr2 flip: l_def)
  next
    case False
    have o3: "order_times (sim_run a g (Suc n)) = os"
      using False by (simp add: run regra_order_times os2)
    have p3: "map fst (pending (sim_run a g (Suc n))) = map fst (pending st2)"
      using False by (simp add: run regra_pending)
    have a3: "arrival_times (sim_run a g (Suc n)) = arrival_times st2"
      by (simp add: run regra_fields)
    have "\<forall>s \<in> set os. 1 \<le> s \<and> s \<le> Suc n" using rng by auto
    then show ?thesis
      using srt by (simp add: o3 p3 a3 pend2 arr2 flip: l_def)
  qed
qed

lemmas sim_eval = sim_serrilhado_com_leadtime_def sim_run_Suc sim_run_0 sim_day_def
       sim_init_def chegadas_def consumo_def demand_def regra_Qr_def position_def Let_def
       shortfall_day_def


theorem sim_clamped_trace_nonneg_witness:
  "sim_serrilhado_com_leadtime (\<lambda>s k. 0)
     \<lparr>arg_Q = 100, arg_r = 20, arg_d_dia = 15, arg_L = 3, arg_sigma_d_dia = 0, arg_T = 3,
      arg_seed = 1, arg_clamp_zero = True, arg_start_mode = ''steady''\<rparr>
     = ([0, 1, 2, 3], [20, 5, 0, 85], [20, 105, 100, 85], [], [3], 1)
   \<and> length (filter (shortfall_day
        \<lparr>arg_Q = 100, arg_r = 20, arg_d_dia = 15, arg_L = 3, arg_sigma_d_dia = 0, arg_T = 3,
         arg_seed = 1, arg_clamp_zero = True, arg_start_mode = ''steady''\<rparr> (\<lambda>k. 0)) [1..<4]) = 1"
proof -
  let ?a = "\<lparr>arg_Q = 100, arg_r = 20, arg_d_dia = 15, arg_L = 3, arg_sigma_d_dia = 0, arg_T = 3,
      arg_seed = 1, arg_clamp_zero = True, arg_start_mode = ''steady''\<rparr>"
  have v: "sim_serrilhado_com_leadtime (\<lambda>s k. 0) ?a
             = ([0, 1, 2, 3], [20, 5, 0, 85], [20, 105, 100, 85], [], [3], 1)"
    by (simp add: sim_eval eval_nat_numeral)
  from sim_clamped_trace_nonneg[of ?a "\<lambda>s k. 0"] show ?thesis
    unfolding v by (simp add: eval_nat_numeral)
qed

theorem sim_deterministic_witness:
  "sim_serrilhado_com_leadtime (\<lambda>s k. if k = 1 then 3 else - 1)
     \<lparr>arg_Q = 100, arg_r = 50, arg_d_dia = 10, arg_L = 2, arg_sigma_d_dia = 20, arg_T = 4,
      arg_seed = 1, arg_clamp_zero = True, arg_start_mode = ''steady''\<rparr>
   = sim_serrilhado_com_leadtime (\<lambda>s k. if k = 1 then 3 else if k < 4 then - 1 else 7)
     \<lparr>arg_Q = 100, arg_r = 50, arg_d_dia = 10, arg_L = 2, arg_sigma_d_dia = 20, arg_T = 4,
      arg_seed = 1, arg_clamp_zero = True, arg_start_mode = ''steady''\<rparr>"
  using sim_deterministic[of
     "\<lparr>arg_Q = 100, arg_r = 50, arg_d_dia = 10, arg_L = 2, arg_sigma_d_dia = 20, arg_T = 4,
      arg_seed = 1, arg_clamp_zero = True, arg_start_mode = ''steady''\<rparr>"
     "\<lambda>s k. if k = 1 then 3 else - 1" "\<lambda>s k. if k = 1 then 3 else if k < 4 then - 1 else 7"]
  by simp

theorem sim_no_lead_time_never_delivers_witness:
  "sim_serrilhado_com_leadtime (\<lambda>s k. 0)
     \<lparr>arg_Q = 100, arg_r = 25, arg_d_dia = 10, arg_L = 0, arg_sigma_d_dia = 0, arg_T = 4,
      arg_seed = 1, arg_clamp_zero = True, arg_start_mode = ''steady''\<rparr>
     = ([0, 1, 2, 3, 4], [25, 15, 5, 0, 0], [25, 115, 105, 100, 100], [], [], 2)"
proof -
  let ?a = "\<lparr>arg_Q = 100, arg_r = 25, arg_d_dia = 10, arg_L = 0, arg_sigma_d_dia = 0, arg_T = 4,
      arg_seed = 1, arg_clamp_zero = True, arg_start_mode = ''steady''\<rparr>"
  have v: "sim_serrilhado_com_leadtime (\<lambda>s k. 0) ?a
             = ([0, 1, 2, 3, 4], [25, 15, 5, 0, 0], [25, 115, 105, 100, 100], [], [], 2)"
    by (simp add: sim_eval eval_nat_numeral)
  from sim_no_lead_time_never_delivers[of ?a "\<lambda>s k. 0"] show ?thesis
    unfolding v by simp
qed

lemma no_shortfall_on_hand:
  assumes "\<not> shortfall_day a g (Suc n)"
  shows "0 \<le> on_hand (sim_run a g (Suc n))"
  using assms
  by (simp add: shortfall_day_def Let_def sim_run_Suc sim_day_on_hand consumo_on_hand)

lemma no_shortfall_y_onhand:
  assumes "0 \<le> on_hand (sim_init a)" "\<forall>t \<in> {1..n}. \<not> shortfall_day a g t"
  shows "\<forall>v \<in> set (y_onhand (sim_run a g n)). 0 \<le> v"
  using assms(2)
proof (induction n)
  case 0
  then show ?case using assms(1) by (simp add: sim_run_0 sim_init_def Let_def)
next
  case (Suc n)
  then have "\<forall>v \<in> set (y_onhand (sim_run a g n)). 0 \<le> v" by simp
  moreover have "0 \<le> on_hand (sim_run a g (Suc n))"
    using Suc.prems by (intro no_shortfall_on_hand) simp
  ultimately show ?case
    by (simp add: sim_run_Suc sim_day_y_onhand)
qed

text \<open>
  Claim C7, as stated, fails: in steady mode the shipment pending at the start arrives on
  day \<open>L\<close> and is recorded as an arrival, but it was placed before day 1 and is not among
  the recorded order days. With \<open>Q = 100\<close>, \<open>r = 50\<close>, \<open>d_dia = 10\<close>, \<open>L = 2\<close>, \<open>T = 3\<close> and no
  variability, no day has a shortfall, there is one arrival (day 2) and no order at all.
\<close>

theorem sim_conservation_counterexample:
  "sim_serrilhado_com_leadtime (\<lambda>s k. 0)
     \<lparr>arg_Q = 100, arg_r = 50, arg_d_dia = 10, arg_L = 2, arg_sigma_d_dia = 0, arg_T = 3,
      arg_seed = 1, arg_clamp_zero = True, arg_start_mode = ''steady''\<rparr>
     = ([0, 1, 2, 3], [50, 40, 130, 120], [50, 140, 130, 120], [], [2], 0)
   \<and> \<not> shortfall_day
        \<lparr>arg_Q = 100, arg_r = 50, arg_d_dia = 10, arg_L = 2, arg_sigma_d_dia = 0, arg_T = 3,
         arg_seed = 1, arg_clamp_zero = True, arg_start_mode = ''steady''\<rparr> (\<lambda>k. 0) 1
   \<and> \<not> shortfall_day
        \<lparr>arg_Q = 100, arg_r = 50, arg_d_dia = 10, arg_L = 2, arg_sigma_d_dia = 0, arg_T = 3,
         arg_seed = 1, arg_clamp_zero = True, arg_start_mode = ''steady''\<rparr> (\<lambda>k. 0) 2
   \<and> \<not> shortfall_day
        \<lparr>arg_Q = 100, arg_r = 50, arg_d_dia = 10, arg_L = 2, arg_sigma_d_dia = 0, arg_T = 3,
         arg_seed = 1, arg_clamp_zero = True, arg_start_mode = ''steady''\<rparr> (\<lambda>k. 0) 3
   \<and> length [2::nat] \<noteq> length (filter (\<lambda>t. t + 2 \<le> 3) ([]::nat list))"
  by (simp add: sim_eval eval_nat_numeral)

text \<open>
  Claim C7, amended: in steady mode with lead time \<open>L \<ge> 1\<close> and \<open>r \<ge> 0\<close>, if on no day
  the demand exceeds the on-hand level after arrivals, then no recorded on-hand value is
  negative, and the number of recorded arrival days is the number of recorded order days
  \<open>t\<close> with \<open>t + L \<le> T\<close>, plus one for the initially pending shipment when \<open>L \<le> T\<close>.
  This holds with or without demand variability.
\<close>

theorem sim_conservation:
  assumes "arg_start_mode a = ''steady''" and "1 \<le> arg_L a" and "0 \<le> arg_r a"
      and "\<forall>t \<in> {1..arg_T a}. \<not> shortfall_day a (default_rng (arg_seed a)) t"
  shows "case sim_serrilhado_com_leadtime default_rng a of
           (x, y_on, y_p, ords, arrs, so) \<Rightarrow>
             (\<forall>v \<in> set y_on. 0 \<le> v)
           \<and> length arrs = length (filter (\<lambda>t. t + arg_L a \<le> arg_T a) ords)
                             + (if arg_L a \<le> arg_T a then 1 else 0)"
proof -
  let ?g = "default_rng (arg_seed a)"
  have "0 \<le> on_hand (sim_init a)" using assms(1,3) by (simp add: sim_init_on_hand)
  then have nn: "\<forall>v \<in> set (y_onhand (sim_run a ?g (arg_T a))). 0 \<le> v"
    using assms(4) by (rule no_shortfall_y_onhand)
  have "arrival_times (sim_run a ?g (arg_T a)) =
           (if arg_L a \<le> arg_T a then [arg_L a] else [])
           @ map (\<lambda>s. s + arg_L a)
               (filter (\<lambda>s. s + arg_L a \<le> arg_T a) (order_times (sim_run a ?g (arg_T a))))"
    using steady_invariant[OF assms(1,2), of ?g "arg_T a"] by blast
  then have "length (arrival_times (sim_run a ?g (arg_T a))) =
           length (filter (\<lambda>t. t + arg_L a \<le> arg_T a) (order_times (sim_run a ?g (arg_T a))))
           + (if arg_L a \<le> arg_T a then 1 else 0)"
    by simp
  with nn show ?thesis by (simp add: sim_serrilhado_com_leadtime_def Let_def)
qed

theorem sim_conservation_witness:
  "sim_serrilhado_com_leadtime (\<lambda>s k. 0)
     \<lparr>arg_Q = 30, arg_r = 20, arg_d_dia = 10, arg_L = 2, arg_sigma_d_dia = 0, arg_T = 7,
      arg_seed = 1, arg_clamp_zero = True, arg_start_mode = ''steady''\<rparr>
     = ([0, 1, 2, 3, 4, 5, 6, 7], [20, 10, 30, 20, 10, 30, 20, 10],
        [20, 40, 30, 20, 40, 30, 20, 40], [3, 6], [2, 5], 0)
   \<and> length [2::nat, 5] = length (filter (\<lambda>t. t + 2 \<le> 7) [3::nat, 6]) + 1"
proof -
  let ?a = "\<lparr>arg_Q = 30, arg_r = 20, arg_d_dia = 10, arg_L = 2, arg_sigma_d_dia = 0, arg_T = 7,
      arg_seed = 1, arg_clamp_zero = True, arg_start_mode = ''steady''\<rparr>"
  have v: "sim_serrilhado_com_leadtime (\<lambda>s k. 0) ?a
             = ([0, 1, 2, 3, 4, 5, 6, 7], [20, 10, 30, 20, 10, 30, 20, 10],
                [20, 40, 30, 20, 40, 30, 20, 40], [3, 6], [2, 5], 0)"
    by (simp add: sim_eval eval_nat_numeral)
  have s: "\<forall>t \<in> {1..arg_T ?a}. \<not> shortfall_day ?a (\<lambda>k. 0) t"
  proof
    fix t assume "t \<in> {1..arg_T ?a}"
    then have "t = 1 \<or> t = 2 \<or> t = 3 \<or> t = 4 \<or> t = 5 \<or> t = 6 \<or> t = 7" by auto
    then show "\<not> shortfall_day ?a (\<lambda>k. 0) t"
      by (elim disjE) (simp_all add: sim_eval eval_nat_numeral)
  qed
  from sim_conservation[of ?a "\<lambda>s k. 0"] s show ?thesis
    unfolding v by simp
qed

section \<open>Verification: batch ranking\<close>





lemma df_rank_empty: "df_rank kind col [] = Inl KeyError"
  by (simp add: df_rank_def)









end
